theory Spec2Isabelle
  imports Main
begin

section \<open>Python strings\<close>

text \<open>
  A Python \<open>str\<close> is a sequence of code points. The model covers the code points below
  256, which is what a \<^typ>\<open>char\<close> holds; a \<^typ>\<open>string\<close> is a list of them. The
  built-in methods the program calls are written out for these code points.
\<close>

datatype py_error = ValueError | IndexError | TypeError

text \<open>\<open>str.split()\<close> cuts at runs of white space and drops empty pieces.\<close>

definition isspace :: "char \<Rightarrow> bool" where
  "isspace c = (of_char c \<in> {9, 10, 11, 12, 13, 28, 29, 30, 31, 32, 133, 160 :: nat})"

fun split_acc :: "string \<Rightarrow> string \<Rightarrow> string list" where
  "split_acc cur [] = (if cur = [] then [] else [cur])"
| "split_acc cur (c # cs) =
     (if isspace c then (if cur = [] then split_acc [] cs else cur # split_acc [] cs)
      else split_acc (cur @ [c]) cs)"

definition str_split :: "string \<Rightarrow> string list" where
  "str_split s = split_acc [] s"

text \<open>
  \<open>str.isdigit()\<close> holds of a non-empty string of characters whose Unicode numeric type
  is Decimal or Digit: below 256 these are \<open>0\<close> to \<open>9\<close> and the superscripts two, three
  and one (U+00B2, U+00B3, U+00B9). \<open>int()\<close> reads decimal characters only and raises
  \<open>ValueError\<close> on a superscript. \<open>int_of_str\<close> is \<open>int()\<close> on the strings that pass
  \<open>isdigit\<close>, the only ones the program gives it.
\<close>

definition isdecimal_char :: "char \<Rightarrow> bool" where
  "isdecimal_char c = (48 \<le> (of_char c :: nat) \<and> (of_char c :: nat) \<le> 57)"

definition isdigit_char :: "char \<Rightarrow> bool" where
  "isdigit_char c = (isdecimal_char c \<or> of_char c \<in> {178, 179, 185 :: nat})"

definition isdigit :: "string \<Rightarrow> bool" where
  "isdigit s = (s \<noteq> [] \<and> list_all isdigit_char s)"

definition digit_value :: "char \<Rightarrow> int" where
  "digit_value c = int (of_char c) - 48"

definition int_of_str :: "string \<Rightarrow> py_error + int" where
  "int_of_str s =
     (if s \<noteq> [] \<and> list_all isdecimal_char s
      then Inr (foldl (\<lambda>a c. 10 * a + digit_value c) 0 s)
      else Inl ValueError)"

text \<open>
  \<open>str.upper()\<close>: the letters \<open>a\<close> to \<open>z\<close> and the accented small letters move down by
  32, the sharp s (U+00DF) becomes \<open>SS\<close>. The upper-case forms of U+00B5 and U+00FF lie
  beyond 255; they are single code points different from \<open>X\<close>, \<open>O\<close> and \<open>_\<close>, as these
  two characters themselves are, and the model leaves the two in place.
\<close>

definition upper_char :: "char \<Rightarrow> string" where
  "upper_char c =
     (let n = (of_char c :: nat) in
      if 97 \<le> n \<and> n \<le> 122 then [char_of (n - 32)]
      else if n = 223 then ''SS''
      else if 224 \<le> n \<and> n \<le> 254 \<and> n \<noteq> 247 then [char_of (n - 32)]
      else [c])"

definition upper :: "string \<Rightarrow> string" where
  "upper s = concat (map upper_char s)"

text \<open>The decimal text of an integer, as an f-string renders it.\<close>

function digits_of :: "nat \<Rightarrow> string" where
  "digits_of n =
     (if n < 10 then [char_of (48 + n)] else digits_of (n div 10) @ [char_of (48 + n mod 10)])"
  by pat_completeness auto
termination
  by (relation "measure id") auto

definition str_of_int :: "int \<Rightarrow> string" where
  "str_of_int i = (if i < 0 then CHR ''-'' # digits_of (nat (- i)) else digits_of (nat i))"

section \<open>The board\<close>

record game =
  grid :: "char list list"
  player :: bool

text \<open>
  The constructor returns the new object and the lines it printed. A preset is
  \<open>Some\<close> text; \<open>None\<close> is the default argument.
\<close>

definition empty_grid :: "char list list" where
  "empty_grid = [[CHR ''_'', CHR ''_'', CHR ''_''],
                 [CHR ''_'', CHR ''_'', CHR ''_''],
                 [CHR ''_'', CHR ''_'', CHR ''_'']]"

definition TicTacToe :: "string option \<Rightarrow> game \<times> string list" where
  "TicTacToe initial_condition =
     (let self = \<lparr>grid = empty_grid, player = True\<rparr> in
      case initial_condition of
        None \<Rightarrow> (self, [])
      | Some ic0 \<Rightarrow>
          (let ic = upper ic0 in
           if length ic = 9 \<and>
              count_list ic CHR ''X'' + count_list ic CHR ''O'' + count_list ic CHR ''_'' = 9
           then
             (let self1 = self\<lparr>grid := map (\<lambda>i. take 3 (drop (3 * i) ic)) [0 ..< 3]\<rparr> in
              if count_list ic CHR ''X'' \<noteq> count_list ic CHR ''O''
              then (self1\<lparr>player := False\<rparr>, [])
              else (self1, []))
           else (self, [''Wrong initial condition''])))"

definition get_turn_player :: "game \<Rightarrow> string" where
  "get_turn_player self = (if player self then ''X'' else ''O'')"

definition get_string_grid :: "game \<Rightarrow> string" where
  "get_string_grid self = concat (grid self)"

text \<open>
  \<open>game_state\<close> is called by \<open>place_move\<close> with indices it has checked to be 0, 1 or 2,
  so they are naturals here. Its result is one of the strings \<open>X\<close>, \<open>O\<close>,
  \<open>not_finished\<close>, \<open>draw\<close>.
\<close>

definition game_state :: "nat \<Rightarrow> nat \<Rightarrow> game \<Rightarrow> string" where
  "game_state x y self =
     (let possible_winner = \<not> player self; g = grid self in
      if g ! 0 ! y = g ! 1 ! y \<and> g ! 1 ! y = g ! 2 ! y
      then (if possible_winner then ''X'' else ''O'')
      else if g ! x ! 0 = g ! x ! 1 \<and> g ! x ! 1 = g ! x ! 2
      then (if possible_winner then ''X'' else ''O'')
      else if x = y \<and> g ! 0 ! 0 = g ! 1 ! 1 \<and> g ! 1 ! 1 = g ! 2 ! 2
      then (if possible_winner then ''X'' else ''O'')
      else if x + y = 2 \<and> g ! 0 ! 2 = g ! 1 ! 1 \<and> g ! 1 ! 1 = g ! 2 ! 0
      then (if possible_winner then ''X'' else ''O'')
      else if count_list (get_string_grid self) CHR ''_'' \<noteq> 0
      then ''not_finished''
      else ''draw'')"

text \<open>
  \<open>place_move\<close> returns its result string and the object after the call; an uncaught
  exception is \<open>Inl\<close>. The grid is read only at indices already checked to be in range.
\<close>

definition place_move :: "string \<Rightarrow> game \<Rightarrow> py_error + (string \<times> game)" where
  "place_move coordinates self =
     (let coordinates_list = str_split coordinates in
      if length coordinates_list \<noteq> 2 then Inr (''not_coordinates_pair'', self)
      else
        (let x = coordinates_list ! 0; y = coordinates_list ! 1 in
         if \<not> isdigit x \<or> \<not> isdigit y then Inr (''not_number_symbol'', self)
         else
           (case int_of_str x of
              Inl e \<Rightarrow> Inl e
            | Inr xi \<Rightarrow>
                (case int_of_str y of
                   Inl e \<Rightarrow> Inl e
                 | Inr yi \<Rightarrow>
                     (let x = xi - 1; y = yi - 1 in
                      if x < 0 \<or> x > 2 \<or> y < 0 \<or> y > 2 then Inr (''out_of_range'', self)
                      else if grid self ! nat x ! nat y \<noteq> CHR ''_''
                      then Inr (''occupied_cell'', self)
                      else
                        (let self1 = self\<lparr>grid := (grid self)
                               [nat x := (grid self ! nat x)
                                  [nat y := (if player self then CHR ''X'' else CHR ''O'')]]\<rparr>;
                             self2 = self1\<lparr>player := \<not> player self1\<rparr>
                         in Inr (game_state (nat x) (nat y) self2, self2)))))))"

text \<open>
  \<open>undo_move\<close> takes a pair of integers and validates nothing. A Python list of length
  \<open>n\<close> accepts the indices from \<open>-n\<close> to \<open>n - 1\<close>, the negative ones counting from the
  end, and raises \<open>IndexError\<close> on any other.
\<close>

definition py_index :: "'a list \<Rightarrow> int \<Rightarrow> py_error + nat" where
  "py_index xs i =
     (if 0 \<le> i \<and> i < int (length xs) then Inr (nat i)
      else if - int (length xs) \<le> i \<and> i < 0 then Inr (nat (int (length xs) + i))
      else Inl IndexError)"

definition undo_move :: "int \<times> int \<Rightarrow> game \<Rightarrow> py_error + game" where
  "undo_move coordinates self =
     (let x = fst coordinates - 1; y = snd coordinates - 1 in
      case py_index (grid self) x of
        Inl e \<Rightarrow> Inl e
      | Inr i \<Rightarrow>
          (case py_index (grid self ! i) y of
             Inl e \<Rightarrow> Inl e
           | Inr j \<Rightarrow>
               (let self1 = self\<lparr>grid := (grid self)[i := (grid self ! i)[j := CHR ''_'']]\<rparr>
                in Inr (self1\<lparr>player := \<not> player self1\<rparr>))))"

text \<open>
  \<open>get_blank_coordinates\<close> reads the nine positions of the board string; every grid the
  constructor and \<open>place_move\<close> produce has nine cells.
\<close>

definition get_blank_coordinates :: "game \<Rightarrow> (int \<times> int) list" where
  "get_blank_coordinates self =
     (let string_grid = get_string_grid self in
      map (\<lambda>position. (int position div 3 + 1, int position mod 3 + 1))
        (filter (\<lambda>position. string_grid ! position = CHR ''_'') [0 ..< 9]))"

text \<open>The f-string \<open>f'{coordinates[0]} {coordinates[1]}'\<close>.\<close>

definition format_coordinates :: "int \<times> int \<Rightarrow> string" where
  "format_coordinates coordinates =
     str_of_int (fst coordinates) @ '' '' @ str_of_int (snd coordinates)"

section \<open>The strategies\<close>

text \<open>
  \<open>random.choice\<close> raises \<open>IndexError\<close> on an empty sequence and otherwise returns the
  element at the index the generator draws below the length; \<open>k\<close> is the generator's
  raw draw.
\<close>

definition choice :: "nat \<Rightarrow> 'a list \<Rightarrow> py_error + 'a" where
  "choice k xs = (if xs = [] then Inl IndexError else Inr (xs ! (k mod length xs)))"

definition get_random_coordinates :: "nat \<Rightarrow> game \<Rightarrow> py_error + (int \<times> int)" where
  "get_random_coordinates k self = choice k (get_blank_coordinates self)"

definition neighbours :: "(nat \<times> nat) list" where
  "neighbours = [(1, 2), (0, 2), (0, 1)]"

fun relevant_loop :: "game \<Rightarrow> (int \<times> int) list \<Rightarrow> (int \<times> int) option" where
  "relevant_loop self [] = None"
| "relevant_loop self (coordinates # rest) =
     (let row = nat (fst coordinates - 1); column = nat (snd coordinates - 1);
          g = grid self in
      if g ! row ! fst (neighbours ! column) = g ! row ! snd (neighbours ! column) \<and>
         g ! row ! snd (neighbours ! column) \<noteq> CHR ''_''
      then Some coordinates
      else if g ! fst (neighbours ! row) ! column = g ! snd (neighbours ! row) ! column \<and>
         g ! snd (neighbours ! row) ! column \<noteq> CHR ''_''
      then Some coordinates
      else if row = column \<and>
         g ! fst (neighbours ! row) ! fst (neighbours ! column) =
         g ! snd (neighbours ! row) ! snd (neighbours ! column) \<and>
         g ! snd (neighbours ! row) ! snd (neighbours ! column) \<noteq> CHR ''_''
      then Some coordinates
      else if row + column = 2 \<and>
         g ! fst (neighbours ! row) ! snd (neighbours ! column) =
         g ! snd (neighbours ! row) ! fst (neighbours ! column) \<and>
         g ! snd (neighbours ! row) ! fst (neighbours ! column) \<noteq> CHR ''_''
      then Some coordinates
      else relevant_loop self rest)"

definition get_relevant_coordinates :: "nat \<Rightarrow> game \<Rightarrow> py_error + (int \<times> int)" where
  "get_relevant_coordinates k self =
     (let blank_coordinates = get_blank_coordinates self in
      case relevant_loop self blank_coordinates of
        Some coordinates \<Rightarrow> Inr coordinates
      | None \<Rightarrow> choice k blank_coordinates)"

text \<open>
  The search mutates the one board and restores it, so the model threads the object
  through every call. The recursion of \<open>min_max_algorithm\<close> is counted by \<open>fuel\<close>:
  \<open>None\<close> is a search cut off by the count, \<open>Some (Inl e)\<close> an exception,
  \<open>Some (Inr (score, self))\<close> the score and the object after the call.
  \<open>scores_loop\<close> is the \<open>for\<close> loop of \<open>min_max_algorithm\<close>, with the recursive call as
  \<open>rec\<close>; \<open>max\<close> and \<open>min\<close> raise \<open>ValueError\<close> on an empty list.
\<close>

fun scores_loop ::
  "(string \<Rightarrow> game \<Rightarrow> (py_error + int \<times> game) option) \<Rightarrow> (int \<times> int) list \<Rightarrow> int list \<Rightarrow>
   game \<Rightarrow> (py_error + int list \<times> game) option" where
  "scores_loop rec [] scores self = Some (Inr (scores, self))"
| "scores_loop rec (coordinates # rest) scores self =
     (case place_move (format_coordinates coordinates) self of
        Inl e \<Rightarrow> Some (Inl e)
      | Inr (move_result, self1) \<Rightarrow>
          (case rec move_result self1 of
             None \<Rightarrow> None
           | Some (Inl e) \<Rightarrow> Some (Inl e)
           | Some (Inr (score, self2)) \<Rightarrow>
               (case undo_move coordinates self2 of
                  Inl e \<Rightarrow> Some (Inl e)
                | Inr self3 \<Rightarrow> scores_loop rec rest (scores @ [score]) self3)))"

fun min_max_algorithm ::
  "nat \<Rightarrow> string \<Rightarrow> string \<Rightarrow> bool \<Rightarrow> game \<Rightarrow> (py_error + int \<times> game) option" where
  "min_max_algorithm 0 move_result computer_player maximizing self = None"
| "min_max_algorithm (Suc fuel) move_result computer_player maximizing self =
     (if move_result = ''draw'' then Some (Inr (0, self))
      else if move_result \<noteq> ''not_finished''
      then Some (Inr (if computer_player = move_result then 1 else - 1, self))
      else
        (case scores_loop
                (\<lambda>r s. min_max_algorithm fuel r computer_player (\<not> maximizing) s)
                (get_blank_coordinates self) [] self of
           None \<Rightarrow> None
         | Some (Inl e) \<Rightarrow> Some (Inl e)
         | Some (Inr (scores, self1)) \<Rightarrow>
             (if scores = [] then Some (Inl ValueError)
              else Some (Inr (if maximizing then Max (set scores) else Min (set scores),
                              self1)))))"

text \<open>
  \<open>best_loop\<close> is the \<open>for\<close> loop of \<open>get_best_coordinates\<close>. \<open>best_score\<close> starts at
  \<open>-math.inf\<close>, below every score: \<open>None\<close> here.
\<close>

fun best_loop ::
  "nat \<Rightarrow> string \<Rightarrow> (int \<times> int) list \<Rightarrow> int option \<Rightarrow> (int \<times> int) option \<Rightarrow> game \<Rightarrow>
   (py_error + (int \<times> int) option \<times> game) option" where
  "best_loop fuel computer_player [] best_score best_coordinates self =
     Some (Inr (best_coordinates, self))"
| "best_loop fuel computer_player (coordinates # rest) best_score best_coordinates self =
     (case place_move (format_coordinates coordinates) self of
        Inl e \<Rightarrow> Some (Inl e)
      | Inr (move_result, self1) \<Rightarrow>
          (case min_max_algorithm fuel move_result computer_player False self1 of
             None \<Rightarrow> None
           | Some (Inl e) \<Rightarrow> Some (Inl e)
           | Some (Inr (score, self2)) \<Rightarrow>
               (case undo_move coordinates self2 of
                  Inl e \<Rightarrow> Some (Inl e)
                | Inr self3 \<Rightarrow>
                    (if (case best_score of None \<Rightarrow> True | Some b \<Rightarrow> score > b)
                     then best_loop fuel computer_player rest (Some score) (Some coordinates)
                            self3
                     else best_loop fuel computer_player rest best_score best_coordinates
                            self3))))"

definition get_best_coordinates ::
  "nat \<Rightarrow> game \<Rightarrow> (py_error + (int \<times> int) option \<times> game) option" where
  "get_best_coordinates fuel self =
     (let computer_player = (if player self then ''X'' else ''O'') in
      best_loop fuel computer_player (get_blank_coordinates self) None None self)"

text \<open>
  \<open>get_coordinates\<close> subscripts what the strategy returned; \<open>None[0]\<close> raises
  \<open>TypeError\<close>.
\<close>

definition get_coordinates ::
  "nat \<Rightarrow> nat \<Rightarrow> string \<Rightarrow> game \<Rightarrow> (py_error + string \<times> game) option" where
  "get_coordinates fuel k difficulty self =
     (if difficulty = ''easy'' then
        (case get_random_coordinates k self of
           Inl e \<Rightarrow> Some (Inl e)
         | Inr random_coordinates \<Rightarrow> Some (Inr (format_coordinates random_coordinates, self)))
      else if difficulty = ''medium'' then
        (case get_relevant_coordinates k self of
           Inl e \<Rightarrow> Some (Inl e)
         | Inr relevant_coordinates \<Rightarrow>
             Some (Inr (format_coordinates relevant_coordinates, self)))
      else
        (case get_best_coordinates fuel self of
           None \<Rightarrow> None
         | Some (Inl e) \<Rightarrow> Some (Inl e)
         | Some (Inr (None, self1)) \<Rightarrow> Some (Inl TypeError)
         | Some (Inr (Some best_coordinates, self1)) \<Rightarrow>
             Some (Inr (format_coordinates best_coordinates, self1))))"

section \<open>The game loop\<close>

text \<open>
  \<open>play\<close> is the loop of the shell. What it reads and draws are parameters: \<open>inputs i\<close>
  is the text the user enters in round \<open>i\<close>, \<open>draws i\<close> the draw of the generator in
  that round; \<open>rounds\<close> counts the rounds and \<open>fuel\<close> the depth of the search. The
  printing is left out; the result is the last \<open>move_result\<close>, which decides the line
  printed (\<open>Draw\<close>, \<open>X wins\<close>, \<open>O wins\<close>), and the board.
\<close>

fun play ::
  "nat \<Rightarrow> nat \<Rightarrow> (nat \<Rightarrow> string) \<Rightarrow> (nat \<Rightarrow> nat) \<Rightarrow> nat \<Rightarrow> game \<times> string \<times> string \<Rightarrow>
   (py_error + string \<times> game) option" where
  "play 0 fuel inputs draws i game_settings = None"
| "play (Suc rounds) fuel inputs draws i (game, x_player, o_player) =
     (let turn_player = get_turn_player game in
      case
        (if (x_player = ''user'' \<and> turn_player = ''X'') \<or>
            (o_player = ''user'' \<and> turn_player = ''O'')
         then Some (place_move (inputs i) game)
         else
           (let auto_move_difficulty = (if turn_player = ''X'' then x_player else o_player) in
            case get_coordinates fuel (draws i) auto_move_difficulty game of
              None \<Rightarrow> None
            | Some (Inl e) \<Rightarrow> Some (Inl e)
            | Some (Inr (coordinates, game1)) \<Rightarrow> Some (place_move coordinates game1)))
      of
        None \<Rightarrow> None
      | Some (Inl e) \<Rightarrow> Some (Inl e)
      | Some (Inr (move_result, game2)) \<Rightarrow>
          if move_result = ''not_finished''
          then play rounds fuel inputs draws (Suc i) (game2, x_player, o_player)
          else if move_result = ''draw'' \<or> move_result = ''X'' \<or> move_result = ''O''
          then Some (Inr (move_result, game2))
          else play rounds fuel inputs draws (Suc i) (game2, x_player, o_player))"

section \<open>Notions of the specification\<close>

text \<open>
  The four validation failures of \<open>place_move\<close>, the board after a mark is written at
  \<open>(x, y)\<close> and the turn has passed, and the shape of a grid: three rows of three cells.
\<close>

definition failures :: "string list" where
  "failures = [''not_coordinates_pair'', ''not_number_symbol'', ''out_of_range'', ''occupied_cell'']"

definition placed :: "nat \<Rightarrow> nat \<Rightarrow> game \<Rightarrow> game" where
  "placed x y self =
     self\<lparr>grid := (grid self)[x := (grid self ! x)[y := (if player self then CHR ''X'' else CHR ''O'')]],
          player := \<not> player self\<rparr>"

text \<open>
  A non-negative integer literal and its value; \<open>first_failure\<close> is the failure the
  description of \<open>ApplyMove\<close> gives for a text, its four tests taken in their order.
\<close>

definition nat_literal :: "string \<Rightarrow> bool" where
  "nat_literal s = (s \<noteq> [] \<and> list_all isdecimal_char s)"

definition literal_value :: "string \<Rightarrow> int" where
  "literal_value s = foldl (\<lambda>a c. 10 * a + digit_value c) 0 s"

definition first_failure :: "string \<Rightarrow> game \<Rightarrow> string option" where
  "first_failure coordinates self =
     (let tokens = str_split coordinates in
      if length tokens \<noteq> 2 then Some ''not_coordinates_pair''
      else if \<not> (nat_literal (tokens ! 0) \<and> nat_literal (tokens ! 1))
      then Some ''not_number_symbol''
      else
        (let row = literal_value (tokens ! 0) - 1; col = literal_value (tokens ! 1) - 1 in
         if \<not> (0 \<le> row \<and> row \<le> 2 \<and> 0 \<le> col \<and> col \<le> 2) then Some ''out_of_range''
         else if grid self ! nat row ! nat col \<noteq> CHR ''_'' then Some ''occupied_cell''
         else None))"

definition wf_grid :: "char list list \<Rightarrow> bool" where
  "wf_grid g = (length g = 3 \<and> list_all (\<lambda>row. length row = 3) g)"

text \<open>
  The lines through a cell, as lists of cells: its column, its row, and each diagonal
  it lies on. A line wins when its cells are equal and not blank.
\<close>

definition lines_through :: "nat \<Rightarrow> nat \<Rightarrow> (nat \<times> nat) list list" where
  "lines_through row col =
     [[(0, col), (1, col), (2, col)], [(row, 0), (row, 1), (row, 2)]] @
     (if row = col then [[(0, 0), (1, 1), (2, 2)]] else []) @
     (if row + col = 2 then [[(0, 2), (1, 1), (2, 0)]] else [])"

definition line_wins :: "char list list \<Rightarrow> (nat \<times> nat) list \<Rightarrow> bool" where
  "line_wins g line =
     (let cells = map (\<lambda>(r, c). g ! r ! c) line in
      hd cells \<noteq> CHR ''_'' \<and> list_all (\<lambda>v. v = hd cells) cells)"

text \<open>A sequence of calls of \<open>place_move\<close> that all succeed.\<close>

fun apply_moves :: "game \<Rightarrow> string list \<Rightarrow> game option" where
  "apply_moves self [] = Some self"
| "apply_moves self (coordinates # rest) =
     (case place_move coordinates self of
        Inl e \<Rightarrow> None
      | Inr (r, self') \<Rightarrow> if r \<in> set failures then None else apply_moves self' rest)"

text \<open>The four line tests of \<open>game_state\<close> taken together.\<close>

definition code_win :: "nat \<Rightarrow> nat \<Rightarrow> char list list \<Rightarrow> bool" where
  "code_win x y g =
     ((g ! 0 ! y = g ! 1 ! y \<and> g ! 1 ! y = g ! 2 ! y) \<or>
      (g ! x ! 0 = g ! x ! 1 \<and> g ! x ! 1 = g ! x ! 2) \<or>
      (x = y \<and> g ! 0 ! 0 = g ! 1 ! 1 \<and> g ! 1 ! 1 = g ! 2 ! 2) \<or>
      (x + y = 2 \<and> g ! 0 ! 2 = g ! 1 ! 1 \<and> g ! 1 ! 1 = g ! 2 ! 0))"

text \<open>
  The cells hold only the two marks and the blank; \<open>mark_balance\<close> is the number of
  \<open>X\<close> marks minus the number of \<open>O\<close> marks. \<open>board_inv\<close> is what every board met in
  play satisfies.
\<close>

definition marks_ok :: "char list list \<Rightarrow> bool" where
  "marks_ok g = list_all (\<lambda>row. list_all (\<lambda>v. v \<in> set ''XO_'') row) g"

definition mark_balance :: "game \<Rightarrow> int" where
  "mark_balance self =
     int (count_list (get_string_grid self) CHR ''X'') -
     int (count_list (get_string_grid self) CHR ''O'')"

definition board_inv :: "game \<Rightarrow> bool" where
  "board_inv self =
     (wf_grid (grid self) \<and> marks_ok (grid self) \<and>
      mark_balance self = (if player self then 0 else 1))"

text \<open>A preset the constructor accepts: nine characters, each a mark or the blank.\<close>

definition valid_preset :: "string \<Rightarrow> bool" where
  "valid_preset ic = (length ic = 9 \<and> list_all (\<lambda>v. v \<in> set ''XO_'') ic)"

text \<open>
  A cell completes a line when, on some line through it, the two other cells are equal
  and not blank. \<open>heuristic_cell\<close> is the first blank cell, in row-major order, that
  completes a line.
\<close>

definition completes_line :: "char list list \<Rightarrow> nat \<Rightarrow> nat \<Rightarrow> bool" where
  "completes_line g row col =
     list_ex
       (\<lambda>line.
          let others = map (\<lambda>(r, c). g ! r ! c) (filter (\<lambda>cell. cell \<noteq> (row, col)) line) in
          hd others \<noteq> CHR ''_'' \<and> list_all (\<lambda>v. v = hd others) others)
       (lines_through row col)"

definition heuristic_cell :: "game \<Rightarrow> (int \<times> int) option" where
  "heuristic_cell self =
     find (\<lambda>(r, c). completes_line (grid self) (nat (r - 1)) (nat (c - 1)))
       (get_blank_coordinates self)"

text \<open>
  \<open>move_at\<close> is the move of the side to move at a cell: what \<open>place_move\<close> returns on
  the text of the cell's coordinates.
\<close>

definition move_at :: "game \<Rightarrow> int \<times> int \<Rightarrow> string \<times> game" where
  "move_at self cell =
     (case place_move (format_coordinates cell) self of
        Inl e \<Rightarrow> (''raised'', self)
      | Inr res \<Rightarrow> res)"

text \<open>
  What the loop of \<open>get_best_coordinates\<close> keeps: the first move whose score is above
  every score before it.
\<close>

fun pick :: "('a \<Rightarrow> int) \<Rightarrow> 'a list \<Rightarrow> int option \<Rightarrow> 'a option \<Rightarrow> 'a option" where
  "pick f [] best_score best = best"
| "pick f (c # cs) best_score best =
     (if (case best_score of None \<Rightarrow> True | Some b \<Rightarrow> f c > b)
      then pick f cs (Some (f c)) (Some c)
      else pick f cs best_score best)"

text \<open>
  To evaluate the game tree, positions are read as their board strings. \<open>cfw\<close> and
  \<open>cfl\<close> compute \<open>forced_win\<close> and \<open>forced_loss\<close> on the board string, to a depth \<open>n\<close>,
  trying the cells in the order centre, corners, edges and stopping at the first move
  that decides.
\<close>

fun any_lazy :: "('a \<Rightarrow> bool) \<Rightarrow> 'a list \<Rightarrow> bool" where
  "any_lazy P [] = False"
| "any_lazy P (x # xs) = (if P x then True else any_lazy P xs)"

fun all_lazy :: "('a \<Rightarrow> bool) \<Rightarrow> 'a list \<Rightarrow> bool" where
  "all_lazy P [] = True"
| "all_lazy P (x # xs) = (if P x then all_lazy P xs else False)"

definition scan_order :: "nat list" where
  "scan_order = [4, 0, 2, 6, 8, 1, 3, 5, 7]"

definition cwon :: "string \<Rightarrow> nat \<Rightarrow> bool" where
  "cwon b p =
     (if b ! (p mod 3) = b ! (3 + p mod 3) \<and> b ! (3 + p mod 3) = b ! (6 + p mod 3) then True
      else if b ! (3 * (p div 3)) = b ! (3 * (p div 3) + 1) \<and>
              b ! (3 * (p div 3) + 1) = b ! (3 * (p div 3) + 2) then True
      else if p div 3 = p mod 3 \<and> b ! 0 = b ! 4 \<and> b ! 4 = b ! 8 then True
      else if p div 3 + p mod 3 = 2 \<and> b ! 2 = b ! 4 \<and> b ! 4 = b ! 6 then True
      else False)"

fun cfw :: "nat \<Rightarrow> bool \<Rightarrow> string \<Rightarrow> bool"
  and cfl :: "nat \<Rightarrow> bool \<Rightarrow> string \<Rightarrow> bool"
  and wins_after :: "nat \<Rightarrow> bool \<Rightarrow> string \<Rightarrow> nat \<Rightarrow> bool"
  and loses_after :: "nat \<Rightarrow> bool \<Rightarrow> string \<Rightarrow> nat \<Rightarrow> bool" where
  "cfw 0 pl b = False"
| "cfw (Suc n) pl b =
     any_lazy (\<lambda>p. wins_after n pl (b[p := (if pl then CHR ''X'' else CHR ''O'')]) p)
       (filter (\<lambda>p. b ! p = CHR ''_'') scan_order)"
| "cfl 0 pl b = False"
| "cfl (Suc n) pl b =
     (if filter (\<lambda>p. b ! p = CHR ''_'') scan_order = [] then False
      else all_lazy (\<lambda>p. loses_after n pl (b[p := (if pl then CHR ''X'' else CHR ''O'')]) p)
             (filter (\<lambda>p. b ! p = CHR ''_'') scan_order))"
| "wins_after n pl b p =
     (if cwon b p then True else if CHR ''_'' \<in> set b then cfl n (\<not> pl) b else False)"
| "loses_after n pl b p =
     (if cwon b p then False else if CHR ''_'' \<in> set b then cfw n (\<not> pl) b else False)"

declare wins_after.simps [simp del] loses_after.simps [simp del]

text \<open>The coordinates of position \<open>p\<close> of the board string.\<close>

definition cell_of :: "nat \<Rightarrow> int \<times> int" where
  "cell_of p = (int p div 3 + 1, int p mod 3 + 1)"

section \<open>Moves and their validation\<close>

lemma game_state_not_failure: "game_state x y s \<notin> set failures"
  by (simp add: game_state_def failures_def Let_def)

lemma game_state_range: "game_state x y s \<in> {''X'', ''O'', ''not_finished'', ''draw''}"
  by (simp add: game_state_def Let_def)

lemma place_move_count:
  "length (str_split c) \<noteq> 2 \<Longrightarrow> place_move c s = Inr (''not_coordinates_pair'', s)"
  by (simp add: place_move_def)

lemma place_move_nondigit:
  "length (str_split c) = 2 \<Longrightarrow> \<not> (isdigit (str_split c ! 0) \<and> isdigit (str_split c ! 1)) \<Longrightarrow>
   place_move c s = Inr (''not_number_symbol'', s)"
  by (auto simp: place_move_def Let_def)

lemma place_move_raises:
  "length (str_split c) = 2 \<Longrightarrow> isdigit (str_split c ! 0) \<Longrightarrow> isdigit (str_split c ! 1) \<Longrightarrow>
   \<not> (nat_literal (str_split c ! 0) \<and> nat_literal (str_split c ! 1)) \<Longrightarrow>
   place_move c s = Inl ValueError"
  by (auto simp: place_move_def Let_def int_of_str_def nat_literal_def split: sum.splits)

lemma place_move_literals:
  "length (str_split c) = 2 \<Longrightarrow> nat_literal (str_split c ! 0) \<Longrightarrow> nat_literal (str_split c ! 1) \<Longrightarrow>
   place_move c s =
     (let x = nat (literal_value (str_split c ! 0) - 1);
          y = nat (literal_value (str_split c ! 1) - 1) in
      if \<not> (1 \<le> literal_value (str_split c ! 0) \<and> literal_value (str_split c ! 0) \<le> 3 \<and>
             1 \<le> literal_value (str_split c ! 1) \<and> literal_value (str_split c ! 1) \<le> 3)
      then Inr (''out_of_range'', s)
      else if grid s ! x ! y \<noteq> CHR ''_'' then Inr (''occupied_cell'', s)
      else Inr (game_state x y (placed x y s), placed x y s))"
  by (auto simp: place_move_def Let_def int_of_str_def nat_literal_def literal_value_def
        isdigit_def isdigit_char_def list_all_iff placed_def)

lemma isdigit_if_literal: "nat_literal s \<Longrightarrow> isdigit s"
  by (auto simp: nat_literal_def isdigit_def isdigit_char_def list_all_iff)

lemma place_move_success:
  assumes "place_move c s = Inr (r, s')" "r \<notin> set failures"
  shows "\<exists>x y. x < 3 \<and> y < 3 \<and> grid s ! x ! y = CHR ''_'' \<and> s' = placed x y s \<and> r = game_state x y s'"
proof -
  let ?t = "str_split c"
  let ?a = "literal_value (?t ! 0)" and ?b = "literal_value (?t ! 1)"
  from assms have len: "length ?t = 2"
    using place_move_count [of c s] by (auto simp: failures_def)
  from assms len have dig: "isdigit (?t ! 0)" "isdigit (?t ! 1)"
    using place_move_nondigit [of c s] by (auto simp: failures_def)
  from assms len dig have lit: "nat_literal (?t ! 0)" "nat_literal (?t ! 1)"
    using place_move_raises [of c s] by auto
  note pm = place_move_literals [OF len lit, of s]
  from assms pm have rng: "1 \<le> ?a \<and> ?a \<le> 3 \<and> 1 \<le> ?b \<and> ?b \<le> 3"
    by (auto simp: failures_def Let_def split: if_splits)
  from assms pm rng have emp: "grid s ! nat (?a - 1) ! nat (?b - 1) = CHR ''_''"
    by (auto simp: failures_def Let_def split: if_splits)
  from assms(1) pm rng emp have "s' = placed (nat (?a - 1)) (nat (?b - 1)) s \<and>
     r = game_state (nat (?a - 1)) (nat (?b - 1)) s'"
    by (auto simp: Let_def)
  moreover from rng have "nat (?a - 1) < 3 \<and> nat (?b - 1) < 3" by auto
  ultimately show ?thesis using emp by blast
qed

text \<open>
  Claim C2. Whenever \<open>place_move\<close> returns one of the four validation failures, the
  object (grid and side to move) is the one it was called on, and the failure returned
  is the first that applies in the order: not exactly two tokens, a token that is not a
  non-negative integer literal, a 0-based index outside 0..2, a target cell that is not
  blank.
\<close>

theorem place_move_failure_keeps_state:
  assumes "place_move coordinates self = Inr (r, self')" and "r \<in> set failures"
  shows "self' = self \<and> first_failure coordinates self = Some r"
proof -
  let ?t = "str_split coordinates"
  let ?a = "literal_value (?t ! 0)" and ?b = "literal_value (?t ! 1)"
  show ?thesis
  proof (cases "length ?t = 2")
    case False
    with assms(1) place_move_count [of coordinates self]
    show ?thesis by (simp add: first_failure_def)
  next
    case len: True
    show ?thesis
    proof (cases "isdigit (?t ! 0) \<and> isdigit (?t ! 1)")
      case False
      with len assms(1) place_move_nondigit [of coordinates self]
      have "r = ''not_number_symbol'' \<and> self' = self" by auto
      moreover from False isdigit_if_literal
      have "\<not> (nat_literal (?t ! 0) \<and> nat_literal (?t ! 1))" by blast
      ultimately show ?thesis using len by (simp add: first_failure_def)
    next
      case dig: True
      with len assms(1) place_move_raises [of coordinates self]
      have lit: "nat_literal (?t ! 0)" "nat_literal (?t ! 1)" by auto
      note pm = place_move_literals [OF len lit, of self]
      show ?thesis
      proof (cases "1 \<le> ?a \<and> ?a \<le> 3 \<and> 1 \<le> ?b \<and> ?b \<le> 3")
        case False
        with pm assms(1) have "r = ''out_of_range'' \<and> self' = self" by (simp add: Let_def)
        moreover from False have "\<not> (0 \<le> ?a - 1 \<and> ?a - 1 \<le> 2 \<and> 0 \<le> ?b - 1 \<and> ?b - 1 \<le> 2)"
          by arith
        ultimately show ?thesis using len lit by (simp add: first_failure_def Let_def)
      next
        case rng: True
        then have rng': "0 \<le> ?a - 1 \<and> ?a - 1 \<le> 2 \<and> 0 \<le> ?b - 1 \<and> ?b - 1 \<le> 2" by arith
        show ?thesis
        proof (cases "grid self ! nat (?a - 1) ! nat (?b - 1) \<noteq> CHR ''_''")
          case True
          with pm rng assms(1) have "r = ''occupied_cell'' \<and> self' = self" by (simp add: Let_def)
          then show ?thesis using len lit rng' True by (simp add: first_failure_def Let_def)
        next
          case False
          with pm rng assms(1)
          have "r = game_state (nat (?a - 1)) (nat (?b - 1)) self'" by (auto simp: Let_def)
          with assms(2) game_state_not_failure show ?thesis by blast
        qed
      qed
    qed
  qed
qed

lemma empty_board: "fst (TicTacToe None) = \<lparr>grid = empty_grid, player = True\<rparr>"
  by (simp add: TicTacToe_def)

lemmas str_defs = str_split_def isspace_def isdigit_def isdigit_char_def isdecimal_char_def
  int_of_str_def digit_value_def

lemma place_move_41: "place_move ''4 1'' (fst (TicTacToe None)) = Inr (''out_of_range'', fst (TicTacToe None))"
  by (simp add: place_move_def str_defs)

theorem place_move_failure_keeps_state_witness:
  "place_move ''4 1'' (fst (TicTacToe None)) = Inr (''out_of_range'', fst (TicTacToe None)) \<and>
   ''out_of_range'' \<in> set failures \<and>
   first_failure ''4 1'' (fst (TicTacToe None)) = Some ''out_of_range''"
proof -
  have m: "place_move ''4 1'' (fst (TicTacToe None)) = Inr (''out_of_range'', fst (TicTacToe None))"
    by (rule place_move_41)
  have f: "''out_of_range'' \<in> set failures" by (simp add: failures_def)
  show ?thesis using place_move_failure_keeps_state [OF m f] m f by simp
qed

text \<open>
  Claim C7. \<open>place_move\<close> does not always return a result: on the text made of the
  superscript two (U+00B2), a space and \<open>1\<close>, both tokens pass \<open>isdigit\<close> and \<open>int\<close>
  raises \<open>ValueError\<close>, which nothing catches. The four examples of the claim hold
  (\<open>place_move_examples\<close>).
\<close>

theorem place_move_superscript_raises:
  "place_move [CHR 0xB2, CHR '' '', CHR ''1''] (fst (TicTacToe None)) = Inl ValueError"
  by (simp add: place_move_def str_defs)

theorem place_move_superscript_raises_witness:
  "isdigit [CHR 0xB2] \<and> isdigit ''1'' \<and>
   place_move [CHR 0xB2, CHR '' '', CHR ''1''] (fst (TicTacToe None)) \<noteq>
     Inr (''not_number_symbol'', fst (TicTacToe None))"
  using place_move_superscript_raises
  by (simp add: isdigit_def isdigit_char_def isdecimal_char_def)

text \<open>
  This is the only way \<open>place_move\<close> raises: two tokens that pass \<open>isdigit\<close>, one of
  them not a decimal literal.
\<close>

lemma place_move_raises_only_on_digits:
  assumes "place_move c s = Inl e"
  shows "e = ValueError \<and> length (str_split c) = 2 \<and>
         isdigit (str_split c ! 0) \<and> isdigit (str_split c ! 1) \<and>
         \<not> (nat_literal (str_split c ! 0) \<and> nat_literal (str_split c ! 1))"
proof -
  let ?t = "str_split c"
  from assms place_move_count [of c s] have len: "length ?t = 2" by auto
  from assms len place_move_nondigit [of c s] have dig: "isdigit (?t ! 0)" "isdigit (?t ! 1)"
    by auto
  have nl: "\<not> (nat_literal (?t ! 0) \<and> nat_literal (?t ! 1))"
  proof
    assume "nat_literal (?t ! 0) \<and> nat_literal (?t ! 1)"
    then have "nat_literal (?t ! 0)" "nat_literal (?t ! 1)" by simp_all
    from place_move_literals [OF len this, of s] assms show False
      by (simp add: Let_def split: if_splits)
  qed
  from place_move_raises [OF len dig nl, of s] assms have "e = ValueError" by simp
  with len dig nl show ?thesis by simp
qed

lemma place_move_examples:
  "place_move ''4 1'' (fst (TicTacToe None)) = Inr (''out_of_range'', fst (TicTacToe None)) \<and>
   place_move ''a b'' (fst (TicTacToe None)) = Inr (''not_number_symbol'', fst (TicTacToe None)) \<and>
   place_move ''1'' (fst (TicTacToe None)) = Inr (''not_coordinates_pair'', fst (TicTacToe None)) \<and>
   (\<exists>self1. place_move ''1 1'' (fst (TicTacToe None)) = Inr (''not_finished'', self1) \<and>
      place_move ''1 1'' self1 = Inr (''occupied_cell'', self1))"
  by (simp add: place_move_def str_defs empty_board empty_grid_def game_state_def get_string_grid_def)

lemma wf_gridE:
  assumes "wf_grid g"
  obtains a b c d e f h i j where "g = [[a, b, c], [d, e, f], [h, i, j]]"
proof -
  from assms have l: "length g = 3" and r: "\<forall>row\<in>set g. length row = 3"
    by (auto simp: wf_grid_def list_all_iff)
  from l obtain r0 r1 r2 where g: "g = [r0, r1, r2]"
    by (auto simp: length_Suc_conv numeral_3_eq_3)
  with r have "length r0 = 3" "length r1 = 3" "length r2 = 3" by auto
  then obtain a b c d e f h i j where "r0 = [a,b,c]" "r1 = [d,e,f]" "r2 = [h,i,j]"
    by (auto simp: length_Suc_conv numeral_3_eq_3)
  with g that show thesis by blast
qed

lemma lt3: "(x::nat) < 3 \<Longrightarrow> x = 0 \<or> x = 1 \<or> x = 2" by arith

lemma game_state_code_win:
  "game_state x y s =
     (if code_win x y (grid s) then (if player s then ''O'' else ''X'')
      else if CHR ''_'' \<in> set (get_string_grid s) then ''not_finished'' else ''draw'')"
  by (simp add: game_state_def code_win_def Let_def count_list_0_iff)

lemma code_win_lines:
  assumes "wf_grid g" and "row < 3" and "col < 3" and "g ! row ! col \<noteq> CHR ''_''"
  shows "code_win row col g = list_ex (line_wins g) (lines_through row col)"
proof -
  from assms(1) obtain a b c d e f h i j where g: "g = [[a, b, c], [d, e, f], [h, i, j]]"
    by (rule wf_gridE)
  from assms(2,3) lt3 have "(row = 0 \<or> row = 1 \<or> row = 2) \<and> (col = 0 \<or> col = 1 \<or> col = 2)" by blast
  then show ?thesis using assms(4) 
    by (elim conjE disjE) (auto simp: g code_win_def lines_through_def line_wins_def)
qed

text \<open>
  Claim C3. On a board whose cell \<open>(row, col)\<close> holds a mark, \<open>game_state\<close> reports a win
  exactly when one of the lines through that cell has three equal cells that are not
  blank; the winner it reports is the side that moved, the turn player before the flip;
  a winning line is reported also on a full board; without one the result is \<open>draw\<close> on
  a full board and \<open>not_finished\<close> otherwise.
\<close>

theorem game_state_classifies:
  assumes "wf_grid (grid self)" and "row < 3" and "col < 3"
    and "grid self ! row ! col \<noteq> CHR ''_''"
  shows "game_state row col self =
           (if list_ex (line_wins (grid self)) (lines_through row col)
            then get_turn_player (self\<lparr>player := \<not> player self\<rparr>)
            else if CHR ''_'' \<in> set (get_string_grid self) then ''not_finished''
            else ''draw'')"
  using code_win_lines [OF assms] by (simp add: game_state_code_win get_turn_player_def)

theorem game_state_classifies_witness:
  "wf_grid [''XXX'', ''OO_'', ''___''] \<and> (0::nat) < 3 \<and> (2::nat) < 3 \<and>
   [''XXX'', ''OO_'', ''___''] ! 0 ! 2 \<noteq> CHR ''_'' \<and>
   game_state 0 2 \<lparr>grid = [''XXX'', ''OO_'', ''___''], player = False\<rparr> = ''X''"
proof -
  have w: "wf_grid (grid \<lparr>grid = [''XXX'', ''OO_'', ''___''], player = False\<rparr>)"
    by (simp add: wf_grid_def)
  have c: "grid \<lparr>grid = [''XXX'', ''OO_'', ''___''], player = False\<rparr> ! 0 ! 2 \<noteq> CHR ''_''"
    by simp
  have r: "(0::nat) < 3" and k: "(2::nat) < 3" by simp_all
  show ?thesis
    using game_state_classifies [OF w r k c] w
    by (simp add: lines_through_def line_wins_def get_turn_player_def)
qed

section \<open>Placing and undoing\<close>

declare digits_of.simps [simp del]

lemma digits_of_small: "n < 10 \<Longrightarrow> digits_of n = [char_of (48 + n)]"
  by (simp add: digits_of.simps)

lemma format_cases:
  assumes "1 \<le> row" "row \<le> 3" "1 \<le> col" "col \<le> 3"
  shows "str_split (format_coordinates (row, col)) = [str_of_int row, str_of_int col] \<and>
         nat_literal (str_of_int row) \<and> nat_literal (str_of_int col) \<and>
         literal_value (str_of_int row) = row \<and> literal_value (str_of_int col) = col"
proof -
  from assms have "(row = 1 \<or> row = 2 \<or> row = 3) \<and> (col = 1 \<or> col = 2 \<or> col = 3)" by arith
  then show ?thesis
    by (elim conjE disjE)
       (simp_all add: format_coordinates_def str_of_int_def digits_of_small str_split_def
          isspace_def nat_literal_def isdecimal_char_def literal_value_def digit_value_def)
qed

lemma place_move_format:
  assumes "1 \<le> row" "row \<le> 3" "1 \<le> col" "col \<le> 3"
    and "grid self ! nat (row - 1) ! nat (col - 1) = CHR ''_''"
  shows "place_move (format_coordinates (row, col)) self =
         Inr (game_state (nat (row - 1)) (nat (col - 1)) (placed (nat (row - 1)) (nat (col - 1)) self),
              placed (nat (row - 1)) (nat (col - 1)) self)"
proof -
  note f = format_cases [OF assms(1-4)]
  have "length (str_split (format_coordinates (row, col))) = 2" using f by simp
  moreover have "nat_literal (str_split (format_coordinates (row, col)) ! 0)" using f by simp
  moreover have "nat_literal (str_split (format_coordinates (row, col)) ! 1)" using f by simp
  ultimately show ?thesis
    using place_move_literals [of "format_coordinates (row, col)" self] f assms
    by (simp add: Let_def)
qed

lemma undo_placed:
  assumes "wf_grid (grid self)" "1 \<le> row" "row \<le> 3" "1 \<le> col" "col \<le> 3"
    and "grid self ! nat (row - 1) ! nat (col - 1) = CHR ''_''"
  shows "undo_move (row, col) (placed (nat (row - 1)) (nat (col - 1)) self) = Inr self"
proof -
  from assms(1) obtain a b c d e f h i j where g: "grid self = [[a, b, c], [d, e, f], [h, i, j]]"
    by (rule wf_gridE)
  from assms have "(row = 1 \<or> row = 2 \<or> row = 3) \<and> (col = 1 \<or> col = 2 \<or> col = 3)" by arith
  then show ?thesis using assms(6)
    by (elim conjE disjE) (simp_all add: undo_move_def py_index_def placed_def g)
qed

text \<open>
  Claim C4. On a well-formed board, for a blank cell \<open>(row, col)\<close> with both
  coordinates from 1 to 3, \<open>place_move\<close> on the text of the coordinates succeeds, and
  \<open>undo_move\<close> at the same coordinates right after it gives back the object as it was:
  the same grid, hence the same board string, and the same side to move.
\<close>

theorem place_then_undo_restores:
  assumes "wf_grid (grid self)" and "1 \<le> row" and "row \<le> 3" and "1 \<le> col" and "col \<le> 3"
    and "grid self ! nat (row - 1) ! nat (col - 1) = CHR ''_''"
  shows "\<exists>r self'. place_move (format_coordinates (row, col)) self = Inr (r, self') \<and>
           r \<notin> set failures \<and> undo_move (row, col) self' = Inr self"
  using place_move_format [OF assms(2-6)] undo_placed [OF assms] game_state_not_failure
  by simp

theorem place_then_undo_restores_witness:
  "wf_grid (grid (fst (TicTacToe None))) \<and> (1::int) \<le> 2 \<and> (2::int) \<le> 3 \<and> (1::int) \<le> 3 \<and>
   (3::int) \<le> 3 \<and> grid (fst (TicTacToe None)) ! nat (2 - 1) ! nat (3 - 1) = CHR ''_'' \<and>
   (\<exists>r self'. place_move (format_coordinates (2, 3)) (fst (TicTacToe None)) = Inr (r, self') \<and>
      r \<notin> set failures \<and> undo_move (2, 3) self' = Inr (fst (TicTacToe None)))"
proof -
  have w: "wf_grid (grid (fst (TicTacToe None)))"
    by (simp add: empty_board empty_grid_def wf_grid_def)
  have c: "grid (fst (TicTacToe None)) ! nat (2 - 1) ! nat (3 - 1) = CHR ''_''"
    by (simp add: empty_board empty_grid_def)
  have a: "(1::int) \<le> 2" "(2::int) \<le> 3" "(1::int) \<le> 3" "(3::int) \<le> 3" by simp_all
  show ?thesis
    using place_then_undo_restores [OF w a c] w c by simp
qed

section \<open>Alternation of the sides\<close>

lemma count_list_update:
  "i < length xs \<Longrightarrow>
   count_list (xs[i := v]) c + (if xs ! i = c then 1 else 0) =
   count_list xs c + (if v = c then 1 else 0)"
proof (induction xs arbitrary: i)
  case Nil
  then show ?case by simp
next
  case (Cons a xs)
  show ?case
  proof (cases i)
    case 0
    then show ?thesis by simp
  next
    case (Suc j)
    with Cons.prems have "j < length xs" by simp
    from Cons.IH [OF this] Suc show ?thesis by (auto split: if_splits)
  qed
qed

lemma count_concat_update:
  "x < length g \<Longrightarrow>
   count_list (concat (g[x := r])) c + count_list (g ! x) c =
   count_list (concat g) c + count_list r c"
proof (induction g arbitrary: x)
  case Nil
  then show ?case by simp
next
  case (Cons a g)
  show ?case
  proof (cases x)
    case 0
    then show ?thesis by simp
  next
    case (Suc j)
    with Cons.prems have "j < length g" by simp
    from Cons.IH [OF this] Suc show ?thesis by simp
  qed
qed

lemma count_placed:
  assumes "wf_grid (grid s)" "x < 3" "y < 3" "grid s ! x ! y = CHR ''_''"
  shows "count_list (get_string_grid (placed x y s)) c + (if c = CHR ''_'' then 1 else 0) =
         count_list (get_string_grid s) c +
           (if c = (if player s then CHR ''X'' else CHR ''O'') then 1 else 0)"
proof -
  let ?m = "if player s then CHR ''X'' else CHR ''O''"
  from assms(1,2) have lx: "x < length (grid s)" and ly: "y < length (grid s ! x)"
    using assms(3) by (auto simp: wf_grid_def list_all_length)
  have 1: "count_list (concat ((grid s)[x := (grid s ! x)[y := ?m]])) c + count_list (grid s ! x) c =
        count_list (concat (grid s)) c + count_list ((grid s ! x)[y := ?m]) c"
    by (rule count_concat_update [OF lx])
  have 2: "count_list ((grid s ! x)[y := ?m]) c + (if grid s ! x ! y = c then 1 else 0) =
        count_list (grid s ! x) c + (if ?m = c then 1 else 0)"
    by (rule count_list_update [OF ly])
  have g: "concat (grid (placed x y s)) = concat ((grid s)[x := (grid s ! x)[y := ?m]])"
    by (simp add: placed_def)
  have e1: "(grid s ! x ! y = c) = (c = CHR ''_'')" using assms(4) by auto
  have e2: "(?m = c) = (c = ?m)" by auto
  from 1 2 show ?thesis unfolding get_string_grid_def g e1 e2 by arith
qed

lemma placed_grid:
  assumes "wf_grid (grid s)" "x < 3" "y < 3" "grid s ! x ! y = CHR ''_''"
  shows "wf_grid (grid (placed x y s)) \<and>
         (marks_ok (grid s) \<longrightarrow> marks_ok (grid (placed x y s))) \<and>
         mark_balance (placed x y s) = mark_balance s + (if player s then 1 else - 1) \<and>
         count_list (get_string_grid (placed x y s)) CHR ''_'' + 1 =
           count_list (get_string_grid s) CHR ''_''"
proof (intro conjI impI)
  from assms(1,2) show "wf_grid (grid (placed x y s))"
    by (auto simp: wf_grid_def placed_def list_all_length nth_list_update)
  show "marks_ok (grid (placed x y s))" if "marks_ok (grid s)"
    using that assms(1,2,3)
    by (auto simp: marks_ok_def wf_grid_def placed_def list_all_length nth_list_update)
  show "mark_balance (placed x y s) = mark_balance s + (if player s then 1 else - 1)"
    using count_placed [OF assms, of "CHR ''X''"] count_placed [OF assms, of "CHR ''O''"]
    by (simp add: mark_balance_def split: if_splits)
  show "count_list (get_string_grid (placed x y s)) CHR ''_'' + 1 =
           count_list (get_string_grid s) CHR ''_''"
    using count_placed [OF assms, of "CHR ''_''"] by (simp split: if_splits)
qed

lemma placed_inv:
  assumes "board_inv s" "x < 3" "y < 3" "grid s ! x ! y = CHR ''_''"
  shows "board_inv (placed x y s)"
proof -
  from assms(1) have w: "wf_grid (grid s)" by (simp add: board_inv_def)
  note p = placed_grid [OF w assms(2-4)]
  have "player (placed x y s) = (\<not> player s)" by (simp add: placed_def)
  with p assms(1) show ?thesis by (auto simp: board_inv_def)
qed

lemma place_move_inv:
  assumes "board_inv s" "place_move c s = Inr (r, s')" "r \<notin> set failures"
  shows "board_inv s'"
  using place_move_success [OF assms(2,3)] placed_inv [OF assms(1)] by blast

lemma apply_moves_inv: "board_inv s \<Longrightarrow> apply_moves s cs = Some s' \<Longrightarrow> board_inv s'"
proof (induction cs arbitrary: s)
  case Nil
  then show ?case by simp
next
  case (Cons c cs)
  from Cons.prems(2) obtain r s1 where pm: "place_move c s = Inr (r, s1)" and nf: "r \<notin> set failures"
    and rest: "apply_moves s1 cs = Some s'"
    by (auto split: sum.splits if_splits)
  from place_move_inv [OF Cons.prems(1) pm nf] rest Cons.IH show ?case by blast
qed

lemma empty_inv: "board_inv (fst (TicTacToe None))"
  by (simp add: empty_board empty_grid_def board_inv_def wf_grid_def marks_ok_def
        mark_balance_def get_string_grid_def)

text \<open>
  Claim C5. After any sequence of successful calls of \<open>place_move\<close> from the empty
  board, the number of \<open>X\<close> marks minus the number of \<open>O\<close> marks is 0 or 1, and it is 0
  exactly when \<open>X\<close> is the side to move.
\<close>

theorem marks_alternate:
  assumes "apply_moves (fst (TicTacToe None)) moves = Some self"
  shows "(mark_balance self = 0 \<or> mark_balance self = 1) \<and>
         (mark_balance self = 0 \<longleftrightarrow> player self)"
  using apply_moves_inv [OF empty_inv assms] by (auto simp: board_inv_def)

lemma place_11: "place_move ''1 1'' (fst (TicTacToe None)) = Inr (''not_finished'', \<lparr>grid = [''X__'', ''___'', ''___''], player = False\<rparr>)"
  by (simp add: place_move_def str_defs empty_board empty_grid_def game_state_def get_string_grid_def)

lemma place_22: "place_move ''2 2'' \<lparr>grid = [''X__'', ''___'', ''___''], player = False\<rparr> = Inr (''not_finished'', \<lparr>grid = [''X__'', ''_O_'', ''___''], player = True\<rparr>)"
  by (simp add: place_move_def str_defs game_state_def get_string_grid_def)

theorem marks_alternate_witness:
  "apply_moves (fst (TicTacToe None)) [''1 1'', ''2 2''] =
     Some \<lparr>grid = [''X__'', ''_O_'', ''___''], player = True\<rparr> \<and>
   mark_balance \<lparr>grid = [''X__'', ''_O_'', ''___''], player = True\<rparr> = 0"
proof -
  have a: "apply_moves (fst (TicTacToe None)) [''1 1'', ''2 2''] =
     Some \<lparr>grid = [''X__'', ''_O_'', ''___''], player = True\<rparr>"
    by (simp add: place_11 place_22 failures_def)
  show ?thesis using marks_alternate [OF a] a by simp
qed

section \<open>Construction from a preset\<close>

lemma count3_le:
  "a \<noteq> b \<Longrightarrow> a \<noteq> c \<Longrightarrow> b \<noteq> c \<Longrightarrow>
   count_list xs a + count_list xs b + count_list xs c \<le> length xs"
  by (induction xs) auto

lemma count3_eq:
  assumes "a \<noteq> b" "a \<noteq> c" "b \<noteq> c"
  shows "(count_list xs a + count_list xs b + count_list xs c = length xs) =
         list_all (\<lambda>v. v = a \<or> v = b \<or> v = c) xs"
proof (induction xs)
  case Nil
  then show ?case by simp
next
  case (Cons x xs)
  from count3_le [OF assms, of xs] Cons assms show ?case by auto
qed

lemma preset_check:
  "(length ic = 9 \<and>
    count_list ic CHR ''X'' + count_list ic CHR ''O'' + count_list ic CHR ''_'' = 9) =
   valid_preset ic"
proof (cases "length ic = 9")
  case True
  have "(count_list ic CHR ''X'' + count_list ic CHR ''O'' + count_list ic CHR ''_'' = length ic) =
        list_all (\<lambda>v. v = CHR ''X'' \<or> v = CHR ''O'' \<or> v = CHR ''_'') ic"
    by (rule count3_eq) simp_all
  with True show ?thesis by (simp add: valid_preset_def)
next
  case False
  then show ?thesis by (simp add: valid_preset_def)
qed

lemma preset_rows:
  "map (\<lambda>i. take 3 (drop (3 * i) ic)) [0 ..< 3] = [take 3 ic, take 3 (drop 3 ic), take 3 (drop 6 ic)]"
proof -
  have "[0 ..< 3] = [0, 1, 2::nat]" by (simp add: upt_rec)
  then show ?thesis by simp
qed

lemma nine_cells:
  assumes "length (u :: 'a list) = 9"
  obtains a b c d e f h i j where "u = [a, b, c, d, e, f, h, i, j]"
proof -
  from assms have "\<exists>a b c d e f h i j. u = [a, b, c, d, e, f, h, i, j]"
    by (simp add: length_Suc_conv eval_nat_numeral) blast
  with that show thesis by blast
qed

lemma preset_cases:
  "TicTacToe (Some preset) =
     (if valid_preset (upper preset)
      then (\<lparr>grid = [take 3 (upper preset), take 3 (drop 3 (upper preset)),
                     take 3 (drop 6 (upper preset))],
             player = (count_list (upper preset) CHR ''X'' = count_list (upper preset) CHR ''O'')\<rparr>,
            [])
      else (\<lparr>grid = empty_grid, player = True\<rparr>, [''Wrong initial condition'']))"
  unfolding TicTacToe_def Let_def preset_check preset_rows by auto

text \<open>
  Claim C8. The constructor accepts a preset exactly when its upper-case form has nine
  characters, each \<open>X\<close>, \<open>O\<close> or \<open>_\<close>. A rejected preset leaves the empty board with
  \<open>X\<close> to move and prints the diagnostic. An accepted one is laid out row by row, three
  characters a row, and \<open>O\<close> is to move exactly when the numbers of \<open>X\<close> and \<open>O\<close> marks
  differ; nothing else about the counts is checked, and a preset of eight \<open>X\<close> and one
  blank is loaded.
\<close>

theorem construct_from_preset:
  "TicTacToe (Some preset) =
     (if valid_preset (upper preset)
      then (\<lparr>grid = [take 3 (upper preset), take 3 (drop 3 (upper preset)),
                     take 3 (drop 6 (upper preset))],
             player = (count_list (upper preset) CHR ''X'' = count_list (upper preset) CHR ''O'')\<rparr>,
            [])
      else (\<lparr>grid = empty_grid, player = True\<rparr>, [''Wrong initial condition''])) \<and>
   (valid_preset (upper preset) \<longrightarrow>
      get_string_grid (fst (TicTacToe (Some preset))) = upper preset \<and>
      wf_grid (grid (fst (TicTacToe (Some preset))))) \<and>
   TicTacToe (Some ''XXXXXXXX_'') =
     (\<lparr>grid = [''XXX'', ''XXX'', ''XX_''], player = False\<rparr>, [])"
proof -
  note 1 = preset_cases [of preset]
  have 2: "get_string_grid (fst (TicTacToe (Some preset))) = upper preset \<and>
      wf_grid (grid (fst (TicTacToe (Some preset))))" if v: "valid_preset (upper preset)"
  proof -
    from v have l: "length (upper preset) = 9" by (simp add: valid_preset_def)
    from l obtain a b c d e f h i j where u: "upper preset = [a, b, c, d, e, f, h, i, j]"
      by (rule nine_cells)
    have "take 3 (upper preset) @ take 3 (drop 3 (upper preset)) @ take 3 (drop 6 (upper preset)) = upper preset"
      unfolding u by simp
    then show ?thesis using v l unfolding 1 by (simp add: get_string_grid_def wf_grid_def)
  qed
  have 3: "TicTacToe (Some ''XXXXXXXX_'') =
     (\<lparr>grid = [''XXX'', ''XXX'', ''XX_''], player = False\<rparr>, [])"
    by (simp add: TicTacToe_def upper_def upper_char_def preset_rows)
  from 1 2 3 show ?thesis by blast
qed

lemma upper_x_xo: "upper ''x_xo_o___'' = ''X_XO_O___''"
  by code_simp

theorem construct_from_preset_witness:
  "valid_preset (upper ''x_xo_o___'') \<and>
   TicTacToe (Some ''x_xo_o___'') =
     (\<lparr>grid = [''X_X'', ''O_O'', ''___''], player = True\<rparr>, []) \<and>
   get_string_grid (fst (TicTacToe (Some ''x_xo_o___''))) = ''X_XO_O___''"
proof -
  have v: "valid_preset (upper ''x_xo_o___'')"
    by (simp add: upper_x_xo valid_preset_def)
  show ?thesis
    using construct_from_preset [of "''x_xo_o___''"] v
    by (simp add: upper_x_xo get_string_grid_def)
qed

lemma upper_marks: "list_all (\<lambda>v. v \<in> set ''XO_'') u \<Longrightarrow> upper u = u"
  by (induction u) (auto simp: upper_def upper_char_def)

lemma inv_preset:
  assumes "board_inv s"
  shows "valid_preset (get_string_grid s) \<and> upper (get_string_grid s) = get_string_grid s \<and>
         [take 3 (get_string_grid s), take 3 (drop 3 (get_string_grid s)),
          take 3 (drop 6 (get_string_grid s))] = grid s"
proof -
  from assms have w: "wf_grid (grid s)" and m: "marks_ok (grid s)"
    by (simp_all add: board_inv_def)
  from w obtain a b c d e f h i j where g: "grid s = [[a, b, c], [d, e, f], [h, i, j]]"
    by (rule wf_gridE)
  from m have ms: "list_all (\<lambda>v. v \<in> set ''XO_'') (get_string_grid s)"
    by (simp add: marks_ok_def get_string_grid_def g)
  have "length (get_string_grid s) = 9" by (simp add: get_string_grid_def g)
  with ms have "valid_preset (get_string_grid s)" by (simp add: valid_preset_def)
  moreover note upper_marks [OF ms]
  moreover have "[take 3 (get_string_grid s), take 3 (drop 3 (get_string_grid s)),
          take 3 (drop 6 (get_string_grid s))] = grid s"
    by (simp add: get_string_grid_def g)
  ultimately show ?thesis by blast
qed

text \<open>
  Claim C9. For every board reached from the empty board by successful calls of
  \<open>place_move\<close>, the constructor applied to its board string gives the same grid and
  the same side to move, and prints nothing.
\<close>

theorem board_string_round_trip:
  assumes "apply_moves (fst (TicTacToe None)) moves = Some self"
  shows "TicTacToe (Some (get_string_grid self)) = (self, [])"
proof -
  have inv: "board_inv self" by (rule apply_moves_inv [OF empty_inv assms])
  note p = inv_preset [OF inv]
  from inv have "(count_list (get_string_grid self) CHR ''X'' =
      count_list (get_string_grid self) CHR ''O'') = player self"
    by (auto simp: board_inv_def mark_balance_def split: if_splits)
  with p preset_cases [of "get_string_grid self"] show ?thesis by simp
qed

theorem board_string_round_trip_witness:
  "apply_moves (fst (TicTacToe None)) [''1 1'', ''2 2''] =
     Some \<lparr>grid = [''X__'', ''_O_'', ''___''], player = True\<rparr> \<and>
   TicTacToe (Some ''X___O____'') =
     (\<lparr>grid = [''X__'', ''_O_'', ''___''], player = True\<rparr>, [])"
proof -
  have a: "apply_moves (fst (TicTacToe None)) [''1 1'', ''2 2''] =
     Some \<lparr>grid = [''X__'', ''_O_'', ''___''], player = True\<rparr>"
    by (simp add: place_11 place_22 failures_def)
  show ?thesis using board_string_round_trip [OF a] a by (simp add: get_string_grid_def)
qed

section \<open>The easy and medium strategies, and the choice of a strategy\<close>

lemma relevant_loop_step:
  assumes "wf_grid (grid s)" "1 \<le> r" "r \<le> 3" "1 \<le> c" "c \<le> 3"
  shows "relevant_loop s ((r, c) # rest) =
         (if completes_line (grid s) (nat (r - 1)) (nat (c - 1)) then Some (r, c)
          else relevant_loop s rest)"
proof -
  from assms(1) obtain a b c' d e f h i j where g: "grid s = [[a, b, c'], [d, e, f], [h, i, j]]"
    by (rule wf_gridE)
  from assms(2-5) have "(r = 1 \<or> r = 2 \<or> r = 3) \<and> (c = 1 \<or> c = 2 \<or> c = 3)" by arith
  then show ?thesis
    by (elim conjE disjE)
       (auto simp: g neighbours_def completes_line_def lines_through_def Let_def)
qed

lemma blank_in_range:
  "(r, c) \<in> set (get_blank_coordinates s) \<Longrightarrow> 1 \<le> r \<and> r \<le> 3 \<and> 1 \<le> c \<and> c \<le> 3"
  by (auto simp: get_blank_coordinates_def Let_def)

lemma relevant_loop_find:
  assumes "wf_grid (grid s)"
    and "\<forall>(r, c) \<in> set cs. 1 \<le> r \<and> r \<le> 3 \<and> 1 \<le> c \<and> c \<le> 3"
  shows "relevant_loop s cs =
         find (\<lambda>(r, c). completes_line (grid s) (nat (r - 1)) (nat (c - 1))) cs"
  using assms(2)
proof (induction cs)
  case Nil
  then show ?case by simp
next
  case (Cons rc cs)
  obtain r c where rc: "rc = (r, c)" by (cases rc)
  with Cons.prems have "1 \<le> r" "r \<le> 3" "1 \<le> c" "c \<le> 3" by auto
  from relevant_loop_step [OF assms(1) this] Cons show ?case by (simp add: rc)
qed

lemma find_in_set: "find P xs = Some x \<Longrightarrow> x \<in> set xs"
  by (induction xs) (auto split: if_splits)

text \<open>
  Claim C6. On a well-formed board, \<open>get_relevant_coordinates\<close> returns the first blank
  cell in row-major order for which some line through it has its two other cells equal
  and not blank, whichever side owns them; when no blank cell qualifies it returns what
  \<open>get_random_coordinates\<close> returns. With a blank cell on the board the result is a
  blank cell. On the preset \<open>X_XO_O___\<close> it returns \<open>(1, 2)\<close>.
\<close>

theorem relevant_is_first_completing_cell:
  assumes "wf_grid (grid self)"
  shows "get_relevant_coordinates k self =
           (case heuristic_cell self of
              Some cell \<Rightarrow> Inr cell
            | None \<Rightarrow> get_random_coordinates k self) \<and>
         (get_blank_coordinates self \<noteq> [] \<longrightarrow>
            (\<exists>cell \<in> set (get_blank_coordinates self).
               get_relevant_coordinates k self = Inr cell)) \<and>
         get_relevant_coordinates k (fst (TicTacToe (Some ''X_XO_O___''))) = Inr (1, 2)"
proof -
  have rng: "\<forall>(r, c) \<in> set (get_blank_coordinates self). 1 \<le> r \<and> r \<le> 3 \<and> 1 \<le> c \<and> c \<le> 3"
    using blank_in_range by blast
  have 1: "get_relevant_coordinates k self =
           (case heuristic_cell self of
              Some cell \<Rightarrow> Inr cell
            | None \<Rightarrow> get_random_coordinates k self)"
    by (simp add: get_relevant_coordinates_def heuristic_cell_def get_random_coordinates_def
          relevant_loop_find [OF assms rng] Let_def split: option.splits)
  have 2: "\<exists>cell \<in> set (get_blank_coordinates self). get_relevant_coordinates k self = Inr cell"
    if ne: "get_blank_coordinates self \<noteq> []"
  proof (cases "heuristic_cell self")
    case None
    with 1 ne show ?thesis
      by (simp add: get_random_coordinates_def choice_def)
  next
    case (Some cell)
    then have "cell \<in> set (get_blank_coordinates self)"
      unfolding heuristic_cell_def by (rule find_in_set)
    with 1 Some show ?thesis by simp
  qed
  have 3: "get_relevant_coordinates k (fst (TicTacToe (Some ''X_XO_O___''))) = Inr (1, 2)"
    by (simp add: preset_cases valid_preset_def upper_def upper_char_def
          get_relevant_coordinates_def get_blank_coordinates_def get_string_grid_def
          neighbours_def upt_rec Let_def)
  from 1 2 3 show ?thesis by blast
qed

theorem relevant_is_first_completing_cell_witness:
  "wf_grid [''XO_'', ''_X_'', ''O__''] \<and>
   heuristic_cell \<lparr>grid = [''XO_'', ''_X_'', ''O__''], player = False\<rparr> = Some (3, 3) \<and>
   get_relevant_coordinates 0 \<lparr>grid = [''XO_'', ''_X_'', ''O__''], player = False\<rparr> = Inr (3, 3)"
proof -
  have w: "wf_grid (grid \<lparr>grid = [''XO_'', ''_X_'', ''O__''], player = False\<rparr>)"
    by (simp add: wf_grid_def)
  have h: "heuristic_cell \<lparr>grid = [''XO_'', ''_X_'', ''O__''], player = False\<rparr> = Some (3, 3)"
    by (simp add: heuristic_cell_def get_blank_coordinates_def get_string_grid_def upt_rec
          completes_line_def lines_through_def Let_def)
  show ?thesis using relevant_is_first_completing_cell [OF w, of 0] w h by simp
qed

text \<open>
  Claim C10. For every difficulty other than \<open>easy\<close> and \<open>medium\<close>, \<open>get_coordinates\<close>
  does what it does for \<open>hard\<close>: it formats what \<open>get_best_coordinates\<close> returns. No
  difficulty is rejected.
\<close>

theorem unknown_difficulty_is_hard:
  assumes "difficulty \<noteq> ''easy''" and "difficulty \<noteq> ''medium''"
  shows "get_coordinates fuel k difficulty self = get_coordinates fuel k ''hard'' self \<and>
         get_coordinates fuel k difficulty self =
           (case get_best_coordinates fuel self of
              None \<Rightarrow> None
            | Some (Inl e) \<Rightarrow> Some (Inl e)
            | Some (Inr (None, self1)) \<Rightarrow> Some (Inl TypeError)
            | Some (Inr (Some best_coordinates, self1)) \<Rightarrow>
                Some (Inr (format_coordinates best_coordinates, self1)))"
  using assms by (simp add: get_coordinates_def)

lemma hard_last_cell:
  "get_coordinates 1 0 ''hard'' \<lparr>grid = [''XOX'', ''OXO'', ''OX_''], player = True\<rparr> =
     Some (Inr (''3 3'', \<lparr>grid = [''XOX'', ''OXO'', ''OX_''], player = True\<rparr>))"
  by code_simp

theorem unknown_difficulty_is_hard_witness:
  "''impossible'' \<noteq> ''easy'' \<and> ''impossible'' \<noteq> ''medium'' \<and>
   get_coordinates 1 0 ''impossible'' \<lparr>grid = [''XOX'', ''OXO'', ''OX_''], player = True\<rparr> =
     Some (Inr (''3 3'', \<lparr>grid = [''XOX'', ''OXO'', ''OX_''], player = True\<rparr>))"
proof -
  have a: "''impossible'' \<noteq> ''easy''" and b: "''impossible'' \<noteq> ''medium''" by simp_all
  show ?thesis
    using unknown_difficulty_is_hard [OF a b, of 1 0 "\<lparr>grid = [''XOX'', ''OXO'', ''OX_''], player = True\<rparr>"]
      hard_last_cell
    by simp
qed

section \<open>The game tree\<close>

lemma filter_index_count:
  "length (filter (\<lambda>p. xs ! p = v) [0 ..< length xs]) = count_list xs v"
proof -
  have "filter (\<lambda>u. u = v) (map (\<lambda>p. xs ! p) [0 ..< length xs]) =
        map (\<lambda>p. xs ! p) (filter (\<lambda>p. xs ! p = v) [0 ..< length xs])"
    by (simp add: filter_map comp_def)
  then have "length (filter (\<lambda>p. xs ! p = v) [0 ..< length xs]) = length (filter (\<lambda>u. u = v) xs)"
    by (metis length_map map_nth)
  also have "\<dots> = count_list xs v"
    by (induction xs) auto
  finally show ?thesis .
qed

lemma blank_count:
  assumes "wf_grid (grid s)"
  shows "length (get_blank_coordinates s) = count_list (get_string_grid s) CHR ''_''"
proof -
  from assms obtain a b c d e f h i j where g: "grid s = [[a, b, c], [d, e, f], [h, i, j]]"
    by (rule wf_gridE)
  have l: "length (get_string_grid s) = 9" by (simp add: get_string_grid_def g)
  show ?thesis
    using filter_index_count [of "get_string_grid s" "CHR ''_''"]
    by (simp add: get_blank_coordinates_def Let_def l)
qed

lemma lt9: "(p::nat) < 9 \<Longrightarrow> p = 0 \<or> p = 1 \<or> p = 2 \<or> p = 3 \<or> p = 4 \<or> p = 5 \<or> p = 6 \<or> p = 7 \<or> p = 8"
  by arith

lemma blank_cell:
  assumes "wf_grid (grid s)" and "cell \<in> set (get_blank_coordinates s)"
  shows "1 \<le> fst cell \<and> fst cell \<le> 3 \<and> 1 \<le> snd cell \<and> snd cell \<le> 3 \<and>
         grid s ! nat (fst cell - 1) ! nat (snd cell - 1) = CHR ''_''"
proof -
  from assms(1) obtain a b c d e f h i j where g: "grid s = [[a, b, c], [d, e, f], [h, i, j]]"
    by (rule wf_gridE)
  from assms(2) obtain p where p: "p < 9" "get_string_grid s ! p = CHR ''_''"
    "cell = (int p div 3 + 1, int p mod 3 + 1)"
    by (auto simp: get_blank_coordinates_def Let_def)
  from lt9 [OF p(1)] p(2,3) show ?thesis
    by (elim disjE) (simp_all add: get_string_grid_def g)
qed

lemma move_at_blank:
  assumes "wf_grid (grid s)" and "cell \<in> set (get_blank_coordinates s)"
  shows "move_at s cell =
           (game_state (nat (fst cell - 1)) (nat (snd cell - 1))
              (placed (nat (fst cell - 1)) (nat (snd cell - 1)) s),
            placed (nat (fst cell - 1)) (nat (snd cell - 1)) s)"
    and "place_move (format_coordinates cell) s = Inr (move_at s cell)"
    and "undo_move cell (snd (move_at s cell)) = Inr s"
    and "nat (fst cell - 1) < 3" and "nat (snd cell - 1) < 3"
proof -
  note b = blank_cell [OF assms]
  obtain r c where cell: "cell = (r, c)" by (cases cell)
  from b cell have rc: "1 \<le> r" "r \<le> 3" "1 \<le> c" "c \<le> 3"
    and e: "grid s ! nat (r - 1) ! nat (c - 1) = CHR ''_''" by simp_all
  from place_move_format [OF rc e] show 1: "move_at s cell =
           (game_state (nat (fst cell - 1)) (nat (snd cell - 1))
              (placed (nat (fst cell - 1)) (nat (snd cell - 1)) s),
            placed (nat (fst cell - 1)) (nat (snd cell - 1)) s)"
    by (simp add: move_at_def cell)
  from place_move_format [OF rc e] show "place_move (format_coordinates cell) s = Inr (move_at s cell)"
    by (simp add: move_at_def cell)
  from undo_placed [OF assms(1) rc e] show "undo_move cell (snd (move_at s cell)) = Inr s"
    unfolding 1 by (simp add: cell)
  from rc show "nat (fst cell - 1) < 3" "nat (snd cell - 1) < 3" by (simp_all add: cell)
qed

lemma move_at_fewer_blanks:
  assumes "wf_grid (grid s)" and "cell \<in> set (get_blank_coordinates s)"
  shows "length (get_blank_coordinates (snd (move_at s cell))) < length (get_blank_coordinates s)"
    and "Suc (length (get_blank_coordinates (snd (move_at s cell)))) = length (get_blank_coordinates s)"
    and "wf_grid (grid (snd (move_at s cell)))"
proof -
  note b = blank_cell [OF assms] and m = move_at_blank [OF assms]
  from b have e: "grid s ! nat (fst cell - 1) ! nat (snd cell - 1) = CHR ''_''" by simp
  note p = placed_grid [OF assms(1) m(4,5) e]
  from p show w: "wf_grid (grid (snd (move_at s cell)))" by (simp add: m(1))
  from p blank_count [OF assms(1)] blank_count [OF w]
  show "Suc (length (get_blank_coordinates (snd (move_at s cell)))) = length (get_blank_coordinates s)"
    by (simp add: m(1))
  then show "length (get_blank_coordinates (snd (move_at s cell))) < length (get_blank_coordinates s)"
    by simp
qed

text \<open>
  The two notions are defined by recursion on the game tree, which ends because every
  move fills a blank cell (\<open>move_at_fewer_blanks\<close>).
  The side to move has a forced win when some move wins at once or leaves the opponent
  with a forced loss; it has a forced loss when it has a move and every move leaves the
  game running with a forced win for the opponent.
\<close>

function forced_win :: "game \<Rightarrow> bool" and forced_loss :: "game \<Rightarrow> bool" where
  "forced_win self =
     (if wf_grid (grid self)
      then list_ex
             (\<lambda>cell. fst (move_at self cell) = get_turn_player self \<or>
                (fst (move_at self cell) = ''not_finished'' \<and>
                 forced_loss (snd (move_at self cell))))
             (get_blank_coordinates self)
      else False)"
| "forced_loss self =
     (if wf_grid (grid self)
      then get_blank_coordinates self \<noteq> [] \<and>
           list_all
             (\<lambda>cell. fst (move_at self cell) = ''not_finished'' \<and>
                forced_win (snd (move_at self cell)))
             (get_blank_coordinates self)
      else False)"
  by pat_completeness auto
termination
  by (relation "measure (\<lambda>v. case v of Inl s \<Rightarrow> length (get_blank_coordinates s)
                                 | Inr s \<Rightarrow> length (get_blank_coordinates s))")
     (auto simp: move_at_fewer_blanks)

declare forced_win.simps [simp del] forced_loss.simps [simp del]

text \<open>
  The value of a position for the side to move. A move wins when it wins at once or
  leaves the opponent a forced loss; it is safe when it does not leave the opponent a
  forced win. \<open>move_score\<close> is the score of a move for the side that makes it.
\<close>

definition game_value :: "game \<Rightarrow> int" where
  "game_value self = (if forced_win self then 1 else if forced_loss self then - 1 else 0)"

definition wins_by :: "game \<Rightarrow> int \<times> int \<Rightarrow> bool" where
  "wins_by self cell =
     (fst (move_at self cell) = get_turn_player self \<or>
      (fst (move_at self cell) = ''not_finished'' \<and> forced_loss (snd (move_at self cell))))"

definition safe_move :: "game \<Rightarrow> int \<times> int \<Rightarrow> bool" where
  "safe_move self cell =
     (\<not> (fst (move_at self cell) = ''not_finished'' \<and> forced_win (snd (move_at self cell))))"

definition move_score :: "game \<Rightarrow> int \<times> int \<Rightarrow> int" where
  "move_score self cell =
     (if fst (move_at self cell) = ''draw'' then 0
      else if fst (move_at self cell) \<noteq> ''not_finished''
      then (if get_turn_player self = fst (move_at self cell) then 1 else - 1)
      else - game_value (snd (move_at self cell)))"

lemma blanks_nonempty:
  assumes "wf_grid (grid s)"
  shows "(get_blank_coordinates s \<noteq> []) = (CHR ''_'' \<in> set (get_string_grid s))"
proof -
  have "(get_blank_coordinates s = []) = (count_list (get_string_grid s) CHR ''_'' = 0)"
    using blank_count [OF assms] by (metis length_0_conv)
  then show ?thesis by (simp only: count_list_0_iff) blast
qed

lemma move_result:
  assumes "wf_grid (grid s)" and "cell \<in> set (get_blank_coordinates s)"
  shows "fst (move_at s cell) = get_turn_player s \<or> fst (move_at s cell) = ''draw'' \<or>
         fst (move_at s cell) = ''not_finished''"
    and "fst (move_at s cell) = ''not_finished'' \<Longrightarrow> get_blank_coordinates (snd (move_at s cell)) \<noteq> []"
    and "player (snd (move_at s cell)) = (\<not> player s)"
proof -
  note m = move_at_blank [OF assms] and f = move_at_fewer_blanks [OF assms]
  let ?s' = "placed (nat (fst cell - 1)) (nat (snd cell - 1)) s"
  have p: "player ?s' = (\<not> player s)" by (simp add: placed_def)
  then show "player (snd (move_at s cell)) = (\<not> player s)" by (simp add: m(1))
  show "fst (move_at s cell) = get_turn_player s \<or> fst (move_at s cell) = ''draw'' \<or>
         fst (move_at s cell) = ''not_finished''"
    by (simp add: m(1) game_state_code_win get_turn_player_def p)
  have w: "wf_grid (grid ?s')" using f(3) by (simp add: m(1))
  show "get_blank_coordinates (snd (move_at s cell)) \<noteq> []" if "fst (move_at s cell) = ''not_finished''"
  proof -
    from that have "CHR ''_'' \<in> set (get_string_grid ?s')"
      by (simp add: m(1) game_state_code_win split: if_splits)
    with blanks_nonempty [OF w] show ?thesis by (simp add: m(1))
  qed
qed

lemma turn_strings:
  "get_turn_player s \<noteq> ''draw''" "get_turn_player s \<noteq> ''not_finished''"
  "get_turn_player s = ''X'' \<or> get_turn_player s = ''O''"
  "(get_turn_player s = get_turn_player t) = (player s = player t)"
  by (simp_all add: get_turn_player_def)

lemma win_loss_exclusive: "\<not> (forced_win s \<and> forced_loss s)"
proof (induction "length (get_blank_coordinates s)" arbitrary: s rule: less_induct)
  case less
  show ?case
  proof
    assume both: "forced_win s \<and> forced_loss s"
    then have w: "wf_grid (grid s)" by (auto simp: forced_win.simps [of s] split: if_splits)
    from both w obtain cell where c: "cell \<in> set (get_blank_coordinates s)"
      and win: "fst (move_at s cell) = get_turn_player s \<or>
                (fst (move_at s cell) = ''not_finished'' \<and> forced_loss (snd (move_at s cell)))"
      by (auto simp: forced_win.simps [of s] list_ex_iff)
    from both w c have nf: "fst (move_at s cell) = ''not_finished''"
      and fw: "forced_win (snd (move_at s cell))"
      by (auto simp: forced_loss.simps [of s] list_all_iff)
    from win nf turn_strings(2) [of s] have "forced_loss (snd (move_at s cell))" by auto
    with fw less [OF move_at_fewer_blanks(1) [OF w c]] show False by blast
  qed
qed

lemma move_score_cases:
  assumes "wf_grid (grid s)" and "cell \<in> set (get_blank_coordinates s)"
  shows "(move_score s cell = 1) = wins_by s cell"
    and "(move_score s cell = - 1) = (\<not> safe_move s cell)"
    and "move_score s cell = 1 \<or> move_score s cell = 0 \<or> move_score s cell = - 1"
proof -
  note r = move_result(1) [OF assms]
  note x = win_loss_exclusive [of "snd (move_at s cell)"]
  from r x turn_strings(1,2) [of s] show "(move_score s cell = 1) = wins_by s cell"
    by (auto simp: move_score_def wins_by_def game_value_def)
  from r x turn_strings(1,2) [of s] show "(move_score s cell = - 1) = (\<not> safe_move s cell)"
    by (auto simp: move_score_def safe_move_def game_value_def)
  from r show "move_score s cell = 1 \<or> move_score s cell = 0 \<or> move_score s cell = - 1"
    by (auto simp: move_score_def game_value_def)
qed

lemma forced_win_iff:
  assumes "wf_grid (grid s)"
  shows "forced_win s = (\<exists>cell \<in> set (get_blank_coordinates s). wins_by s cell)"
  using assms by (simp add: forced_win.simps [of s] list_ex_iff wins_by_def)

lemma forced_loss_iff:
  assumes "wf_grid (grid s)"
  shows "forced_loss s = (get_blank_coordinates s \<noteq> [] \<and>
           (\<forall>cell \<in> set (get_blank_coordinates s). \<not> safe_move s cell))"
  using assms by (simp add: forced_loss.simps [of s] list_all_iff safe_move_def)

lemma Max_three:
  fixes A :: "int set"
  assumes fin: "finite A" and ne: "A \<noteq> {}" and rng: "\<forall>v \<in> A. v = 1 \<or> v = 0 \<or> v = - 1"
  shows "Max A = (if 1 \<in> A then 1 else if (\<forall>v \<in> A. v = - 1) then - 1 else 0)"
proof -
  have le: "Max A \<le> 1" using fin ne rng by (subst Max_le_iff) auto
  have mem: "Max A \<in> A" using fin ne by (rule Max_in)
  show ?thesis
  proof (cases "1 \<in> A")
    case True
    then have "1 \<le> Max A" using fin by (rule_tac Max_ge) 
    with le True show ?thesis by simp
  next
    case n1: False
    show ?thesis
    proof (cases "\<forall>v \<in> A. v = - 1")
      case True
      with mem have "Max A = - 1" by blast
      with n1 True show ?thesis by simp
    next
      case False
      then obtain v where v: "v \<in> A" "v \<noteq> - 1" by blast
      with rng n1 have "v = 0" by auto
      with v fin have "0 \<le> Max A" by (simp add: Max_ge)
      moreover from mem n1 have "Max A \<noteq> 1" by auto
      ultimately have "Max A = 0" using le by arith
      with n1 False show ?thesis by simp
    qed
  qed
qed

lemma game_value_Max:
  assumes "wf_grid (grid s)" and "get_blank_coordinates s \<noteq> []"
  shows "game_value s = Max (move_score s ` set (get_blank_coordinates s))"
proof -
  let ?A = "move_score s ` set (get_blank_coordinates s)"
  have fin: "finite ?A" and ne: "?A \<noteq> {}" using assms(2) by simp_all
  have rng: "\<forall>v \<in> ?A. v = 1 \<or> v = 0 \<or> v = - 1"
    using move_score_cases(3) [OF assms(1)] by blast
  have w: "forced_win s = (1 \<in> ?A)"
  proof -
    have "(1 \<in> ?A) = (\<exists>cell \<in> set (get_blank_coordinates s). 1 = move_score s cell)"
      by (rule image_iff)
    also have "\<dots> = (\<exists>cell \<in> set (get_blank_coordinates s). wins_by s cell)"
    proof (rule bex_cong [OF refl])
      fix cell assume "cell \<in> set (get_blank_coordinates s)"
      from move_score_cases(1) [OF assms(1) this]
      show "(1 = move_score s cell) = wins_by s cell" by auto
    qed
    finally show ?thesis using forced_win_iff [OF assms(1)] by simp
  qed
  have l: "forced_loss s = (\<forall>v \<in> ?A. v = - 1)"
  proof -
    have "(\<forall>v \<in> ?A. v = - 1) = (\<forall>cell \<in> set (get_blank_coordinates s). move_score s cell = - 1)"
      by (rule ball_simps)
    also have "\<dots> = (\<forall>cell \<in> set (get_blank_coordinates s). \<not> safe_move s cell)"
    proof (rule ball_cong [OF refl])
      fix cell assume "cell \<in> set (get_blank_coordinates s)"
      from move_score_cases(2) [OF assms(1) this]
      show "(move_score s cell = - 1) = (\<not> safe_move s cell)" .
    qed
    finally show ?thesis using forced_loss_iff [OF assms(1)] assms(2) by simp
  qed
  from Max_three [OF fin ne rng] show ?thesis
    by (simp only: game_value_def w l)
qed

section \<open>The search computes the value of the game\<close>

lemma scores_loop_run:
  assumes "wf_grid (grid s)"
    and "set cs \<subseteq> set (get_blank_coordinates s)"
    and "\<forall>cell \<in> set cs. rec (fst (move_at s cell)) (snd (move_at s cell)) =
           Some (Inr (f cell, snd (move_at s cell)))"
  shows "scores_loop rec cs acc s = Some (Inr (acc @ map f cs, s))"
  using assms(2,3)
proof (induction cs arbitrary: acc)
  case Nil
  then show ?case by simp
next
  case (Cons cell cs)
  from Cons.prems have c: "cell \<in> set (get_blank_coordinates s)" by simp
  note m = move_at_blank [OF assms(1) c]
  obtain mr s1 where ms: "move_at s cell = (mr, s1)" by (cases "move_at s cell")
  from m(2) ms have p: "place_move (format_coordinates cell) s = Inr (mr, s1)" by simp
  from m(3) ms have u: "undo_move cell s1 = Inr s" by simp
  from Cons.prems ms have r: "rec mr s1 = Some (Inr (f cell, s1))" by simp
  from Cons.prems have "scores_loop rec cs (acc @ [f cell]) s = Some (Inr ((acc @ [f cell]) @ map f cs, s))"
    by (intro Cons.IH) auto
  then show ?case
    by (simp add: p u r)
qed

lemma Min_neg_image:
  fixes f :: "'a \<Rightarrow> int"
  assumes "finite S" and "S \<noteq> {}"
  shows "Min ((\<lambda>x. - f x) ` S) = - Max (f ` S)"
proof (rule Min_eqI)
  show "finite ((\<lambda>x. - f x) ` S)" using assms(1) by simp
  show "- Max (f ` S) \<le> y" if "y \<in> (\<lambda>x. - f x) ` S" for y
  proof -
    from that obtain x where x: "x \<in> S" "y = - f x" by blast
    then have "f x \<le> Max (f ` S)" using assms(1) by simp
    with x show ?thesis by simp
  qed
  have "Max (f ` S) \<in> f ` S" using assms by (intro Max_in) simp_all
  then obtain x where "x \<in> S" "Max (f ` S) = f x" by blast
  then show "- Max (f ` S) \<in> (\<lambda>x. - f x) ` S" by (metis image_eqI)
qed

lemma min_max_leaf:
  "r \<noteq> ''not_finished'' \<Longrightarrow>
   min_max_algorithm (Suc n) r cp mx s =
     Some (Inr (if r = ''draw'' then 0 else if cp = r then 1 else - 1, s))"
  by simp

lemma child_score:
  assumes w: "wf_grid (grid s)" and c: "cell \<in> set (get_blank_coordinates s)"
    and len: "length (get_blank_coordinates s) < Suc n"
    and mx: "mx = (get_turn_player s = cp)" and cp: "cp = ''X'' \<or> cp = ''O''"
    and IH: "\<And>t m. wf_grid (grid t) \<Longrightarrow> get_blank_coordinates t \<noteq> [] \<Longrightarrow>
               length (get_blank_coordinates t) < n \<Longrightarrow> m = (get_turn_player t = cp) \<Longrightarrow>
               min_max_algorithm n ''not_finished'' cp m t =
                 Some (Inr (if m then game_value t else - game_value t, t))"
  shows "min_max_algorithm n (fst (move_at s cell)) cp (\<not> mx) (snd (move_at s cell)) =
           Some (Inr (if mx then move_score s cell else - move_score s cell, snd (move_at s cell)))"
proof -
  let ?r = "fst (move_at s cell)" and ?t = "snd (move_at s cell)"
  note f = move_at_fewer_blanks [OF w c] and mr = move_result [OF w c]
  from c have "0 < length (get_blank_coordinates s)" by (cases "get_blank_coordinates s") auto
  with f(2) len obtain k where n: "n = Suc k" by (cases n) auto
  show ?thesis
  proof (cases "?r = ''not_finished''")
    case True
    from mr(2) [OF True] have ne: "get_blank_coordinates ?t \<noteq> []" .
    from f(2) len have l: "length (get_blank_coordinates ?t) < n" by simp
    from mr(3) mx cp turn_strings(3) [of s]
    have m: "(\<not> mx) = (get_turn_player ?t = cp)"
      by (auto simp: get_turn_player_def)
    from IH [OF f(3) ne l m] True show ?thesis
      by (simp add: move_score_def)
  next
    case False
    with mr(1) have r: "?r = get_turn_player s \<or> ?r = ''draw''" by blast
    have "min_max_algorithm n ?r cp (\<not> mx) ?t =
            Some (Inr (if ?r = ''draw'' then 0 else if cp = ?r then 1 else - 1, ?t))"
      unfolding n using False by (rule min_max_leaf)
    moreover have "(if ?r = ''draw'' then 0 else if cp = ?r then 1 else - 1) =
                   (if mx then move_score s cell else - move_score s cell)"
      using r False mx turn_strings(1) [of s] by (auto simp: move_score_def)
    ultimately show ?thesis by simp
  qed
qed

lemma min_max_value:
  "wf_grid (grid s) \<Longrightarrow> get_blank_coordinates s \<noteq> [] \<Longrightarrow>
   length (get_blank_coordinates s) < fuel \<Longrightarrow> mx = (get_turn_player s = cp) \<Longrightarrow>
   cp = ''X'' \<or> cp = ''O'' \<Longrightarrow>
   min_max_algorithm fuel ''not_finished'' cp mx s =
     Some (Inr (if mx then game_value s else - game_value s, s))"
proof (induction fuel arbitrary: s mx)
  case 0
  then show ?case by simp
next
  case (Suc n)
  let ?B = "get_blank_coordinates s"
  let ?g = "\<lambda>cell. if mx then move_score s cell else - move_score s cell"
  have ch: "\<forall>cell \<in> set ?B.
      min_max_algorithm n (fst (move_at s cell)) cp (\<not> mx) (snd (move_at s cell)) =
        Some (Inr (?g cell, snd (move_at s cell)))"
  proof
    fix cell assume c: "cell \<in> set ?B"
    show "min_max_algorithm n (fst (move_at s cell)) cp (\<not> mx) (snd (move_at s cell)) =
        Some (Inr (?g cell, snd (move_at s cell)))"
      by (rule child_score [OF Suc.prems(1) c Suc.prems(3,4,5)]) (rule Suc.IH [OF _ _ _ _ Suc.prems(5)])
  qed
  have loop: "scores_loop (\<lambda>r t. min_max_algorithm n r cp (\<not> mx) t) ?B [] s =
               Some (Inr ([] @ map ?g ?B, s))"
    by (rule scores_loop_run [OF Suc.prems(1) subset_refl]) (use ch in simp)
  have fin: "finite (set ?B)" and ne: "set ?B \<noteq> {}" using Suc.prems(2) by simp_all
  have val: "(if mx then Max (set (map ?g ?B)) else Min (set (map ?g ?B))) =
             (if mx then game_value s else - game_value s)"
  proof (cases mx)
    case True
    then show ?thesis using game_value_Max [OF Suc.prems(1,2)] by simp
  next
    case False
    have "Min ((\<lambda>cell. - move_score s cell) ` set ?B) = - Max (move_score s ` set ?B)"
      using fin ne by (rule Min_neg_image)
    with False show ?thesis using game_value_Max [OF Suc.prems(1,2)] by simp
  qed
  from Suc.prems(2) have nn: "map ?g ?B \<noteq> []" by simp
  show ?case
    unfolding min_max_algorithm.simps(2) [of n "''not_finished''" cp mx s] 
    using loop nn val by simp
qed

lemma best_loop_run:
  assumes "wf_grid (grid s)"
    and "set cs \<subseteq> set (get_blank_coordinates s)"
    and "length (get_blank_coordinates s) \<le> fuel"
  shows "best_loop fuel (get_turn_player s) cs bs bc s =
           Some (Inr (pick (move_score s) cs bs bc, s))"
  using assms(2)
proof (induction cs arbitrary: bs bc)
  case Nil
  then show ?case by simp
next
  case (Cons cell cs)
  from Cons.prems have c: "cell \<in> set (get_blank_coordinates s)" by simp
  note m = move_at_blank [OF assms(1) c]
  obtain mr s1 where ms: "move_at s cell = (mr, s1)" by (cases "move_at s cell")
  from m(2) ms have p: "place_move (format_coordinates cell) s = Inr (mr, s1)" by simp
  from m(3) ms have u: "undo_move cell s1 = Inr s" by simp
  from assms(3) have len: "length (get_blank_coordinates s) < Suc fuel" by simp
  have "min_max_algorithm fuel (fst (move_at s cell)) (get_turn_player s) (\<not> True)
          (snd (move_at s cell)) =
        Some (Inr (if True then move_score s cell else - move_score s cell, snd (move_at s cell)))"
    by (rule child_score [OF assms(1) c len _ turn_strings(3)])
       (simp, rule min_max_value [OF _ _ _ _ turn_strings(3)])
  with ms have r: "min_max_algorithm fuel mr (get_turn_player s) False s1 =
        Some (Inr (move_score s cell, s1))" by simp
  from Cons.prems have sub: "set cs \<subseteq> set (get_blank_coordinates s)" by simp
  show ?case
    by (simp add: p u r Cons.IH [OF sub])
qed

lemma pick_max:
  assumes "(bs = None \<and> bc = None) \<or> (\<exists>c0. bc = Some c0 \<and> bs = Some (f c0))"
    and "cs \<noteq> [] \<or> bc \<noteq> None"
  shows "\<exists>m. pick f cs bs bc = Some m \<and> m \<in> set cs \<union> set_option bc \<and>
           (\<forall>c \<in> set cs \<union> set_option bc. f c \<le> f m)"
  using assms
proof (induction cs arbitrary: bs bc)
  case Nil
  then show ?case by auto
next
  case (Cons c cs)
  show ?case
  proof (cases "case bs of None \<Rightarrow> True | Some b \<Rightarrow> f c > b")
    case True
    have "\<exists>m. pick f cs (Some (f c)) (Some c) = Some m \<and> m \<in> set cs \<union> set_option (Some c) \<and>
           (\<forall>c' \<in> set cs \<union> set_option (Some c). f c' \<le> f m)"
      by (rule Cons.IH) auto
    then obtain m where m: "pick f cs (Some (f c)) (Some c) = Some m"
      "m \<in> set cs \<union> {c}" "\<forall>c' \<in> set cs \<union> {c}. f c' \<le> f m" by auto
    from m(3) have cm: "f c \<le> f m" by simp
    have "\<forall>c' \<in> set_option bc. f c' \<le> f m"
    proof
      fix c' assume "c' \<in> set_option bc"
      with Cons.prems(1) have "bc = Some c'" "bs = Some (f c')" by auto
      with True have "f c' < f c" by simp
      with cm show "f c' \<le> f m" by simp
    qed
    with m True show ?thesis by auto
  next
    case False
    then obtain b where b: "bs = Some b" "\<not> f c > b" by (cases bs) auto
    with Cons.prems(1) obtain c0 where c0: "bc = Some c0" "b = f c0" by auto
    have "\<exists>m. pick f cs bs bc = Some m \<and> m \<in> set cs \<union> set_option bc \<and>
           (\<forall>c' \<in> set cs \<union> set_option bc. f c' \<le> f m)"
      by (rule Cons.IH) (use Cons.prems(1) c0 in auto)
    then obtain m where m: "pick f cs bs bc = Some m"
      "m \<in> set cs \<union> {c0}" "\<forall>c' \<in> set cs \<union> {c0}. f c' \<le> f m" using c0 by auto
    from m(3) b c0 have "f c \<le> f m" by auto
    with m False c0 show ?thesis by auto
  qed
qed

lemma best_move:
  assumes w: "wf_grid (grid s)" and ne: "get_blank_coordinates s \<noteq> []"
    and fuel: "length (get_blank_coordinates s) \<le> fuel"
  shows "\<exists>cell \<in> set (get_blank_coordinates s).
           get_best_coordinates fuel s = Some (Inr (Some cell, s)) \<and>
           move_score s cell = game_value s"
proof -
  let ?B = "get_blank_coordinates s"
  have run: "get_best_coordinates fuel s = Some (Inr (pick (move_score s) ?B None None, s))"
    using best_loop_run [OF w subset_refl fuel, of None None]
    by (simp add: get_best_coordinates_def get_turn_player_def)
  from pick_max [where bs = None and bc = None and cs = ?B and f = "move_score s"] ne
  obtain m where m: "pick (move_score s) ?B None None = Some m" "m \<in> set ?B"
    "\<forall>c \<in> set ?B. move_score s c \<le> move_score s m" by auto
  have "Max (move_score s ` set ?B) = move_score s m"
    using m(2,3) by (intro Max_eqI) auto
  with game_value_Max [OF w ne] have "move_score s m = game_value s" by simp
  with run m show ?thesis by auto
qed

section \<open>The value of the empty board\<close>

text \<open>
  \<open>cfw\<close> and \<open>cfl\<close> agree with \<open>forced_win\<close> and \<open>forced_loss\<close> on every well-formed
  board (\<open>compact_value\<close>); evaluated on the empty board, both are false.
\<close>

lemma any_lazy_iff: "any_lazy P xs = (\<exists>x \<in> set xs. P x)"
  by (induction xs) auto

lemma all_lazy_iff: "all_lazy P xs = (\<forall>x \<in> set xs. P x)"
  by (induction xs) auto

lemma scan_order_set: "set scan_order = {p. p < 9}"
proof -
  have "{p::nat. p < 9} = set [0 ..< 9]" by auto
  also have "[0 ..< 9] = [0, 1, 2, 3, 4, 5, 6, 7, 8 :: nat]" by (simp add: upt_rec)
  finally show ?thesis by (auto simp: scan_order_def)
qed

lemma blanks_as_cells:
  "set (get_blank_coordinates s) = cell_of ` {p. p < 9 \<and> get_string_grid s ! p = CHR ''_''}"
  by (auto simp: get_blank_coordinates_def cell_of_def Let_def)

lemma concat_update:
  assumes "wf_grid g" and "x < 3" and "y < 3"
  shows "concat (g[x := (g ! x)[y := v]]) = (concat g)[3 * x + y := v]"
proof -
  from assms(1) obtain a b c d e f h i j where g: "g = [[a, b, c], [d, e, f], [h, i, j]]"
    by (rule wf_gridE)
  from assms(2,3) lt3 have "(x = 0 \<or> x = 1 \<or> x = 2) \<and> (y = 0 \<or> y = 1 \<or> y = 2)" by blast
  then show ?thesis by (elim conjE disjE) (simp_all add: g)
qed

lemma code_win_cwon:
  assumes "wf_grid g" and "x < 3" and "y < 3"
  shows "code_win x y g = cwon (concat g) (3 * x + y)"
proof -
  from assms(1) obtain a b c d e f h i j where g: "g = [[a, b, c], [d, e, f], [h, i, j]]"
    by (rule wf_gridE)
  from assms(2,3) lt3 have "(x = 0 \<or> x = 1 \<or> x = 2) \<and> (y = 0 \<or> y = 1 \<or> y = 2)" by blast
  then show ?thesis by (elim conjE disjE) (simp_all add: g code_win_def cwon_def)
qed

lemma compact_move:
  assumes w: "wf_grid (grid s)" and p: "p < 9" and e: "get_string_grid s ! p = CHR ''_''"
  shows "get_string_grid (snd (move_at s (cell_of p))) =
           (get_string_grid s)[p := (if player s then CHR ''X'' else CHR ''O'')]"
    and "fst (move_at s (cell_of p)) =
           (if cwon (get_string_grid (snd (move_at s (cell_of p)))) p then get_turn_player s
            else if CHR ''_'' \<in> set (get_string_grid (snd (move_at s (cell_of p))))
            then ''not_finished'' else ''draw'')"
proof -
  from p e have c: "cell_of p \<in> set (get_blank_coordinates s)"
    unfolding blanks_as_cells by blast
  note m = move_at_blank(1) [OF w c] and f = move_at_fewer_blanks(3) [OF w c]
  have xy: "nat (fst (cell_of p) - 1) = p div 3" "nat (snd (cell_of p) - 1) = p mod 3"
    by (simp_all add: cell_of_def nat_div_distrib nat_mod_distrib)
  from p have x: "p div 3 < 3" and y: "p mod 3 < 3" by simp_all
  have pp: "3 * (p div 3) + p mod 3 = p" by simp
  let ?s' = "placed (p div 3) (p mod 3) s"
  have s': "snd (move_at s (cell_of p)) = ?s'"
    and r: "fst (move_at s (cell_of p)) = game_state (p div 3) (p mod 3) ?s'"
    by (simp_all add: m xy)
  from f have w': "wf_grid (grid ?s')" by (simp add: s')
  show "get_string_grid (snd (move_at s (cell_of p))) =
           (get_string_grid s)[p := (if player s then CHR ''X'' else CHR ''O'')]"
    unfolding s' using concat_update [OF w x y] by (simp add: get_string_grid_def placed_def pp)
  have pl: "player ?s' = (\<not> player s)" by (simp add: placed_def)
  from code_win_cwon [OF w' x y]
  have "code_win (p div 3) (p mod 3) (grid ?s') = cwon (get_string_grid ?s') p"
    by (simp add: pp get_string_grid_def)
  then show "fst (move_at s (cell_of p)) =
           (if cwon (get_string_grid (snd (move_at s (cell_of p)))) p then get_turn_player s
            else if CHR ''_'' \<in> set (get_string_grid (snd (move_at s (cell_of p))))
            then ''not_finished'' else ''draw'')"
    unfolding r s' by (simp add: game_state_code_win pl get_turn_player_def)
qed

lemma blank_positions:
  "set (filter (\<lambda>p. b ! p = CHR ''_'') scan_order) = {p. p < 9 \<and> b ! p = CHR ''_''}"
  using scan_order_set by auto

lemma compact_value:
  "wf_grid (grid s) \<Longrightarrow> length (get_blank_coordinates s) < n \<Longrightarrow>
   forced_win s = cfw n (player s) (get_string_grid s) \<and>
   forced_loss s = cfl n (player s) (get_string_grid s)"
proof (induction n arbitrary: s)
  case 0
  then show ?case by simp
next
  case (Suc n)
  let ?b = "get_string_grid s"
  let ?P = "{p. p < 9 \<and> ?b ! p = CHR ''_''}"
  note w = Suc.prems(1)
  have step: "wins_by s (cell_of p) =
                wins_after n (player s) (?b[p := (if player s then CHR ''X'' else CHR ''O'')]) p \<and>
              (\<not> safe_move s (cell_of p)) =
                loses_after n (player s) (?b[p := (if player s then CHR ''X'' else CHR ''O'')]) p"
    if p: "p \<in> ?P" for p
  proof -
    from p have p9: "p < 9" and e: "?b ! p = CHR ''_''" by simp_all
    from p have c: "cell_of p \<in> set (get_blank_coordinates s)"
      unfolding blanks_as_cells by blast
    note cm = compact_move [OF w p9 e]
    note f = move_at_fewer_blanks [OF w c] and mr = move_result(3) [OF w c]
    let ?t = "snd (move_at s (cell_of p))"
    from f(2) Suc.prems(2) have "length (get_blank_coordinates ?t) < n" by simp
    from Suc.IH [OF f(3) this] mr
    have ih: "forced_win ?t = cfw n (\<not> player s) (get_string_grid ?t)"
      "forced_loss ?t = cfl n (\<not> player s) (get_string_grid ?t)" by simp_all
    show ?thesis
      unfolding wins_by_def safe_move_def cm(2) ih wins_after.simps loses_after.simps
      using turn_strings(1,2) [of s] by (simp add: cm(1))
  qed
  let ?m = "if player s then CHR ''X'' else CHR ''O''"
  have "forced_win s = (\<exists>p \<in> ?P. wins_by s (cell_of p))"
    unfolding forced_win_iff [OF w] blanks_as_cells by simp
  also have "\<dots> = (\<exists>p \<in> ?P. wins_after n (player s) (?b[p := ?m]) p)"
    by (rule bex_cong [OF refl]) (use step in blast)
  also have "\<dots> = cfw (Suc n) (player s) ?b"
    by (simp only: cfw.simps any_lazy_iff blank_positions)
  finally have 1: "forced_win s = cfw (Suc n) (player s) ?b" .
  have ne: "(filter (\<lambda>p. ?b ! p = CHR ''_'') scan_order = []) = (?P = {})"
    unfolding blank_positions [symmetric] by (simp only: set_empty)
  have "forced_loss s = (?P \<noteq> {} \<and> (\<forall>p \<in> ?P. \<not> safe_move s (cell_of p)))"
    unfolding forced_loss_iff [OF w] set_empty [symmetric] blanks_as_cells by simp
  also have "(\<forall>p \<in> ?P. \<not> safe_move s (cell_of p)) =
             (\<forall>p \<in> ?P. loses_after n (player s) (?b[p := ?m]) p)"
    by (rule ball_cong [OF refl]) (use step in blast)
  also have "(?P \<noteq> {} \<and> (\<forall>p \<in> ?P. loses_after n (player s) (?b[p := ?m]) p)) =
             cfl (Suc n) (player s) ?b"
    by (simp only: cfl.simps all_lazy_iff blank_positions ne) simp
  finally have 2: "forced_loss s = cfl (Suc n) (player s) ?b" .
  from 1 2 show ?case by simp
qed

section \<open>Optimal play\<close>

lemma hard_move:
  assumes w: "wf_grid (grid s)" and ne: "get_blank_coordinates s \<noteq> []"
    and fuel: "length (get_blank_coordinates s) \<le> fuel"
  shows "\<exists>cell \<in> set (get_blank_coordinates s).
           get_coordinates fuel k ''hard'' s = Some (Inr (format_coordinates cell, s)) \<and>
           place_move (format_coordinates cell) s = Inr (move_at s cell) \<and>
           move_score s cell = game_value s"
proof -
  from best_move [OF w ne fuel] obtain cell where c: "cell \<in> set (get_blank_coordinates s)"
    and b: "get_best_coordinates fuel s = Some (Inr (Some cell, s))"
    and v: "move_score s cell = game_value s" by blast
  from b have "get_coordinates fuel k ''hard'' s = Some (Inr (format_coordinates cell, s))"
    by (simp add: get_coordinates_def)
  with c v move_at_blank(2) [OF w c] show ?thesis by blast
qed

lemma self_play_draw:
  "wf_grid (grid s) \<Longrightarrow> get_blank_coordinates s \<noteq> [] \<Longrightarrow> game_value s = 0 \<Longrightarrow>
   length (get_blank_coordinates s) \<le> rounds \<Longrightarrow> length (get_blank_coordinates s) \<le> fuel \<Longrightarrow>
   \<exists>final. play rounds fuel inputs draws i (s, ''hard'', ''hard'') = Some (Inr (''draw'', final))"
proof (induction rounds arbitrary: s i)
  case 0
  then show ?case by simp
next
  case (Suc rounds)
  note w = Suc.prems(1)
  from hard_move [OF w Suc.prems(2,5), of "draws i"] obtain cell
    where c: "cell \<in> set (get_blank_coordinates s)"
      and g: "get_coordinates fuel (draws i) ''hard'' s = Some (Inr (format_coordinates cell, s))"
      and p: "place_move (format_coordinates cell) s = Inr (move_at s cell)"
      and v: "move_score s cell = game_value s" by blast
  obtain r t where m: "move_at s cell = (r, t)" by (cases "move_at s cell")
  note mr = move_result [OF w c] and f = move_at_fewer_blanks [OF w c]
  from v Suc.prems(3) have sc: "move_score s cell = 0" by simp
  have tp: "get_turn_player s \<noteq> ''user''" by (simp add: get_turn_player_def)
  have step: "play (Suc rounds) fuel inputs draws i (s, ''hard'', ''hard'') =
          (if r = ''not_finished'' then play rounds fuel inputs draws (Suc i) (t, ''hard'', ''hard'')
           else if r = ''draw'' \<or> r = ''X'' \<or> r = ''O'' then Some (Inr (r, t))
           else play rounds fuel inputs draws (Suc i) (t, ''hard'', ''hard''))"
    by (simp add: g p m Let_def)
  show ?case
  proof (cases "r = ''not_finished''")
    case True
    with sc m have gv: "game_value t = 0" by (simp add: move_score_def)
    from True m mr(2) have ne: "get_blank_coordinates t \<noteq> []" by simp
    from f(2) m Suc.prems(4,5) have l: "length (get_blank_coordinates t) \<le> rounds"
      "length (get_blank_coordinates t) \<le> fuel" by simp_all
    from f(3) m have wt: "wf_grid (grid t)" by simp
    from Suc.IH [OF wt ne gv l] True step show ?thesis by simp
  next
    case False
    with sc m mr(1) turn_strings(1) [of s] have "r = ''draw''"
      by (auto simp: move_score_def split: if_splits)
    with step show ?thesis by simp
  qed
qed

lemma empty_no_forced_win: "cfw 10 True ''_________'' = False"
  by code_simp

lemma empty_no_forced_loss: "cfl 10 True ''_________'' = False"
  by code_simp

lemma empty_value: "game_value (fst (TicTacToe None)) = 0"
proof -
  let ?e = "fst (TicTacToe None)"
  have w: "wf_grid (grid ?e)" by (simp add: empty_board empty_grid_def wf_grid_def)
  have g: "get_string_grid ?e = ''_________''"
    by (simp add: empty_board empty_grid_def get_string_grid_def)
  have "length (get_blank_coordinates ?e) = 9"
    unfolding blank_count [OF w] g by simp
  then have "length (get_blank_coordinates ?e) < 10" by simp
  from compact_value [OF w this]
  have "forced_win ?e = cfw 10 (player ?e) ''_________'' \<and>
        forced_loss ?e = cfl 10 (player ?e) ''_________''"
    unfolding g .
  moreover have "player ?e = True" by (simp add: empty_board)
  ultimately have "forced_win ?e = False \<and> forced_loss ?e = False"
    by (simp only: empty_no_forced_win empty_no_forced_loss)
  then show ?thesis by (simp only: game_value_def if_False)
qed

lemma blanks_at_most_nine:
  assumes "wf_grid (grid s)"
  shows "length (get_blank_coordinates s) \<le> 9"
proof -
  from assms obtain a b c d e f h i j where g: "grid s = [[a, b, c], [d, e, f], [h, i, j]]"
    by (rule wf_gridE)
  have "length (get_string_grid s) = 9" by (simp add: get_string_grid_def g)
  with count_le_length [of "get_string_grid s" "CHR ''_''"] show ?thesis
    unfolding blank_count [OF assms] by simp
qed

text \<open>
  Claim C1. On every board reached from the empty board by successful calls of
  \<open>place_move\<close> that has a blank cell, and with a search depth of at least 9,
  \<open>get_best_coordinates\<close> returns a blank cell and leaves the board as it was; when the
  side to move has a forced win, the move at that cell wins at once or leaves the
  opponent a forced loss; when some move does not leave the opponent a forced win, the
  move at that cell does not either. A game from the empty board in which both sides
  play at difficulty \<open>hard\<close> ends, within nine rounds, with the result \<open>draw\<close>.
\<close>

theorem best_move_optimal:
  assumes "apply_moves (fst (TicTacToe None)) moves = Some self"
    and "get_blank_coordinates self \<noteq> []"
    and "9 \<le> fuel" and "9 \<le> rounds"
  shows "(\<exists>cell \<in> set (get_blank_coordinates self).
            get_best_coordinates fuel self = Some (Inr (Some cell, self)) \<and>
            (forced_win self \<longrightarrow> wins_by self cell) \<and>
            ((\<exists>c \<in> set (get_blank_coordinates self). safe_move self c) \<longrightarrow>
               safe_move self cell)) \<and>
         (\<exists>final. play rounds fuel inputs draws 0 (fst (TicTacToe None), ''hard'', ''hard'') =
            Some (Inr (''draw'', final)))"
proof
  have inv: "board_inv self" by (rule apply_moves_inv [OF empty_inv assms(1)])
  then have w: "wf_grid (grid self)" by (simp add: board_inv_def)
  let ?B = "get_blank_coordinates self"
  from blanks_at_most_nine [OF w] assms(3) have fuel: "length ?B \<le> fuel" by simp
  from best_move [OF w assms(2) fuel] obtain cell where c: "cell \<in> set ?B"
    and b: "get_best_coordinates fuel self = Some (Inr (Some cell, self))"
    and v: "move_score self cell = game_value self" by blast
  have mx: "move_score self c' \<le> move_score self cell" if "c' \<in> set ?B" for c'
    using that v game_value_Max [OF w assms(2)] by simp
  have win: "wins_by self cell" if "forced_win self"
  proof -
    from that v have "move_score self cell = 1" by (simp add: game_value_def)
    with move_score_cases(1) [OF w c] show ?thesis by simp
  qed
  have safe: "safe_move self cell" if "\<exists>c' \<in> set ?B. safe_move self c'"
  proof -
    from that obtain c' where c': "c' \<in> set ?B" "safe_move self c'" by blast
    with move_score_cases(2,3) [OF w c'(1)] have "0 \<le> move_score self c'" by auto
    with mx [OF c'(1)] have "move_score self cell \<noteq> - 1" by simp
    with move_score_cases(2) [OF w c] show ?thesis by simp
  qed
  from c b win safe
  show "\<exists>cell \<in> set ?B. get_best_coordinates fuel self = Some (Inr (Some cell, self)) \<and>
          (forced_win self \<longrightarrow> wins_by self cell) \<and>
          ((\<exists>c \<in> set ?B. safe_move self c) \<longrightarrow> safe_move self cell)"
    by blast
next
  let ?e = "fst (TicTacToe None)"
  have w: "wf_grid (grid ?e)" by (simp add: empty_board empty_grid_def wf_grid_def)
  have ne: "get_blank_coordinates ?e \<noteq> []"
    unfolding blanks_nonempty [OF w]
    by (simp add: empty_board empty_grid_def get_string_grid_def)
  from blanks_at_most_nine [OF w] assms(3,4)
  have l: "length (get_blank_coordinates ?e) \<le> rounds" "length (get_blank_coordinates ?e) \<le> fuel"
    by simp_all
  from self_play_draw [OF w ne empty_value l]
  show "\<exists>final. play rounds fuel inputs draws 0 (?e, ''hard'', ''hard'') =
          Some (Inr (''draw'', final))" .
qed

theorem best_move_optimal_witness:
  "apply_moves (fst (TicTacToe None)) [''1 1'', ''2 2''] =
     Some \<lparr>grid = [''X__'', ''_O_'', ''___''], player = True\<rparr> \<and>
   get_blank_coordinates \<lparr>grid = [''X__'', ''_O_'', ''___''], player = True\<rparr> \<noteq> [] \<and>
   (\<exists>cell. get_best_coordinates 9 \<lparr>grid = [''X__'', ''_O_'', ''___''], player = True\<rparr> =
      Some (Inr (Some cell, \<lparr>grid = [''X__'', ''_O_'', ''___''], player = True\<rparr>))) \<and>
   (\<exists>final. play 9 9 (\<lambda>i. []) (\<lambda>i. 0) 0 (fst (TicTacToe None), ''hard'', ''hard'') =
      Some (Inr (''draw'', final)))"
proof -
  let ?s = "\<lparr>grid = [''X__'', ''_O_'', ''___''], player = True\<rparr>"
  have a: "apply_moves (fst (TicTacToe None)) [''1 1'', ''2 2''] = Some ?s"
    by (simp add: place_11 place_22 failures_def)
  have w: "wf_grid (grid ?s)" by (simp add: wf_grid_def)
  have ne: "get_blank_coordinates ?s \<noteq> []"
    unfolding blanks_nonempty [OF w] by (simp add: get_string_grid_def)
  have n: "(9::nat) \<le> 9" by simp
  from best_move_optimal [OF a ne n n, of "\<lambda>i. []" "\<lambda>i. 0"] a ne show ?thesis by blast
qed

end
